theory Spec2Isabelle
  imports Main "HOL-Library.Word" "HOL-Library.Sublist"
begin

section \<open>The C interface used by \<open>c_examples/lstypec.c\<close>\<close>

text \<open>
  The example is a client of the header \<open>libtypec-rs.h\<close>. The header and the library
  behind it are not part of the example: the types below are the parts of the header the
  example touches, and the library's functions are a parameter of the model (the record
  \<open>libtypec_rs_h\<close>), each one a transition of an arbitrary library state \<open>'s\<close>. A function
  with out-parameters yields, beside its status, what the out-parameters hold after the
  call. \<open>libtypec_rs_get_pdos\<close> also takes what they hold before the call: they are the
  locals \<open>out_pdos\<close>, \<open>out_npdos\<close> and \<open>out_mem_sz\<close>, initialised at line 19 to 21, and a
  call that does not write them leaves them as they are. The enumeration constant
  \<open>OsBackends_Sysfs\<close> of the header is a field of the record as well.

  \<^item> \<open>int\<close> is a 32-bit word, read signed by \<open>sint\<close>; \<open>size_t\<close> is a 64-bit word.
  \<^item> A pointer is an address, \<open>NULL\<close> the address 0. No pointer arithmetic occurs.
  \<^item> \<open>ENOTSUP\<close> has the value \<open>errno.h\<close> gives it on Linux.
\<close>

type_synonym c_int = "32 word"
type_synonym c_uint = "32 word"
type_synonym size_t = "64 word"
type_synonym ptr = nat

definition NULL :: ptr where
  "NULL = 0"

definition ENOTSUP :: c_int where
  "ENOTSUP = 95"

datatype UcsiPdoType = UcsiPdoType_Source | UcsiPdoType_Sink

datatype UcsiPdoSourceCapabilitiesType =
  UcsiPdoSourceCapabilitiesType_CurrentSupportedSourceCapabilities

datatype UcsiGetAlternateModesRecipient =
    UcsiGetAlternateModesRecipient_Connector
  | UcsiGetAlternateModesRecipient_Sop
  | UcsiGetAlternateModesRecipient_SopPrime

datatype PdMessageRecipient = PdMessageRecipient_Sop | PdMessageRecipient_SopPrime

datatype PdMessageResponseType = PdMessageResponseType_DiscoverIdentity

text \<open>
  \<open>struct UcsiCapability\<close>: the two fields the example reads. \<open>num_connectors\<close> is the
  field's value as the comparison with the \<open>size_t\<close> loop counter sees it.
\<close>

record UcsiCapability =
  num_connectors :: size_t
  pd_version :: "32 word"

text \<open>\<open>struct PdMessage\<close> is opaque to the example; the model keeps its raw payload.\<close>

type_synonym PdMessage = "32 word list"

text \<open>
  The three out-parameters of a variable-length query: the buffer's address, its element
  count and its size in bytes.
\<close>

type_synonym buffer = "ptr \<times> size_t \<times> size_t"

subsection \<open>Calls as events\<close>

text \<open>
  A query is a call of the library with the arguments passed by value. The contents of the
  out-parameters before and after the call are recorded beside it in the event:
  \<open>Unobserved\<close> stands for an uninitialised local before the call, and for a result the
  example never reads after it.
\<close>

datatype query =
    New c_uint
  | GetCapabilities ptr
  | GetConnCapabilities ptr size_t
  | GetPdos ptr size_t bool c_uint c_uint UcsiPdoType UcsiPdoSourceCapabilitiesType "32 word"
  | GetCableProperties ptr size_t
  | GetAlternateModes ptr UcsiGetAlternateModesRecipient size_t
  | GetPdMessage ptr size_t PdMessageRecipient PdMessageResponseType

datatype outparams =
    Unobserved
  | Handle ptr
  | Capability UcsiCapability
  | Buffer ptr size_t size_t
  | Message PdMessage

datatype event =
    Call query outparams c_int outparams
  | DestroyPdos ptr size_t size_t
  | DestroyAlternateModes ptr size_t size_t
  | DestroyPdMessage PdMessage
  | Destroy ptr

record 's libtypec_rs_h =
  OsBackends_Sysfs :: c_uint
  libtypec_rs_new :: "c_uint \<Rightarrow> 's \<Rightarrow> (c_int \<times> ptr) \<times> 's"
  libtypec_rs_get_capabilities :: "ptr \<Rightarrow> 's \<Rightarrow> (c_int \<times> UcsiCapability) \<times> 's"
  libtypec_rs_get_conn_capabilities :: "ptr \<Rightarrow> size_t \<Rightarrow> 's \<Rightarrow> c_int \<times> 's"
  libtypec_rs_get_pdos ::
    "ptr \<Rightarrow> size_t \<Rightarrow> bool \<Rightarrow> c_uint \<Rightarrow> c_uint \<Rightarrow> UcsiPdoType \<Rightarrow>
     UcsiPdoSourceCapabilitiesType \<Rightarrow> 32 word \<Rightarrow> buffer \<Rightarrow> 's \<Rightarrow> (c_int \<times> buffer) \<times> 's"
  libtypec_rs_get_cable_properties :: "ptr \<Rightarrow> size_t \<Rightarrow> 's \<Rightarrow> c_int \<times> 's"
  libtypec_rs_get_alternate_modes ::
    "ptr \<Rightarrow> UcsiGetAlternateModesRecipient \<Rightarrow> size_t \<Rightarrow> 's \<Rightarrow> (c_int \<times> buffer) \<times> 's"
  libtypec_rs_get_pd_message ::
    "ptr \<Rightarrow> size_t \<Rightarrow> PdMessageRecipient \<Rightarrow> PdMessageResponseType \<Rightarrow> 's \<Rightarrow>
     (c_int \<times> PdMessage) \<times> 's"
  libtypec_rs_destroy_pdos :: "ptr \<Rightarrow> size_t \<Rightarrow> size_t \<Rightarrow> 's \<Rightarrow> 's"
  libtypec_rs_destroy_alternate_modes :: "ptr \<Rightarrow> size_t \<Rightarrow> size_t \<Rightarrow> 's \<Rightarrow> 's"
  libtypec_rs_destroy_pd_message :: "PdMessage \<Rightarrow> 's \<Rightarrow> 's"
  libtypec_rs_destroy :: "ptr \<Rightarrow> 's \<Rightarrow> 's"

section \<open>The example: \<open>c_example_lstypec\<close>\<close>

text \<open>
  The function's state: the library's state and the three locals that live across the
  loop, \<open>out_pdos\<close>, \<open>out_npdos\<close> and \<open>out_mem_sz\<close>. A statement takes the state and
  yields the events it caused, how it ended, and the new state. It ends with
  \<open>None\<close> when control falls through to the next statement, with \<open>Returned ret\<close> at a
  \<open>return ret\<close>, and with \<open>Aborted\<close> when an \<open>assert\<close> fails (\<open>NDEBUG\<close> is not
  defined, so \<open>assert\<close> is checked). Writing to \<open>stderr\<close> is left out.
\<close>

record 's locals =
  lib :: 's
  out_pdos :: ptr
  out_npdos :: size_t
  out_mem_sz :: size_t

datatype outcome = Returned c_int | Aborted

type_synonym 's stmt = "'s locals \<Rightarrow> (event list \<times> outcome option) \<times> 's locals"

text \<open>Lines 44 to 48: the connector's capabilities; any negative status is returned.\<close>

definition conn_capabilities :: "'s libtypec_rs_h \<Rightarrow> ptr \<Rightarrow> size_t \<Rightarrow> 's stmt" where
  "conn_capabilities L typec connector_nr v =
     (case libtypec_rs_get_conn_capabilities L typec connector_nr (lib v) of
        (ret, s) \<Rightarrow>
          (([Call (GetConnCapabilities typec connector_nr) Unobserved ret Unobserved],
            if sint ret < 0 then Some (Returned ret) else None),
           v\<lparr>lib := s\<rparr>))"

text \<open>
  Lines 51 to 62, 65 to 76, 150 to 160 and 165 to 175: one of the four PDO queries. The
  library reads and writes the three locals through the pointers it is given.
\<close>

definition pdos ::
  "'s libtypec_rs_h \<Rightarrow> ptr \<Rightarrow> size_t \<Rightarrow> bool \<Rightarrow> UcsiPdoType \<Rightarrow> 32 word \<Rightarrow> 's stmt" where
  "pdos L typec connector_nr partner pdo_type pdv v =
     (case libtypec_rs_get_pdos L typec connector_nr partner 0 0 pdo_type
             UcsiPdoSourceCapabilitiesType_CurrentSupportedSourceCapabilities pdv
             (out_pdos v, out_npdos v, out_mem_sz v) (lib v) of
        ((ret, (p, n, sz)), s) \<Rightarrow>
          (let call = Call (GetPdos typec connector_nr partner 0 0 pdo_type
                         UcsiPdoSourceCapabilitiesType_CurrentSupportedSourceCapabilities pdv)
                       (Buffer (out_pdos v) (out_npdos v) (out_mem_sz v)) ret (Buffer p n sz);
               v' = v\<lparr>lib := s, out_pdos := p, out_npdos := n, out_mem_sz := sz\<rparr>
           in if ret = 0 then
                if p = NULL then (([call], Some Aborted), v')
                else (([call, DestroyPdos p n sz], None),
                      v'\<lparr>lib := libtypec_rs_destroy_pdos L p n sz s\<rparr>)
              else if ret \<noteq> - ENOTSUP then (([call], Some (Returned ret)), v')
              else (([call], None), v')))"

text \<open>Lines 147 to 149 and 162 to 164: the three locals are cleared.\<close>

definition reset_pdos :: "'s stmt" where
  "reset_pdos v = (([], None), v\<lparr>out_pdos := NULL, out_npdos := 0, out_mem_sz := 0\<rparr>)"

text \<open>Lines 80 to 85: the cable's properties.\<close>

definition cable_properties :: "'s libtypec_rs_h \<Rightarrow> ptr \<Rightarrow> size_t \<Rightarrow> 's stmt" where
  "cable_properties L typec connector_nr v =
     (case libtypec_rs_get_cable_properties L typec connector_nr (lib v) of
        (ret, s) \<Rightarrow>
          (let call = Call (GetCableProperties typec connector_nr) Unobserved ret Unobserved;
               v' = v\<lparr>lib := s\<rparr>
           in if ret = 0 then (([call], None), v')
              else if ret \<noteq> - ENOTSUP then (([call], Some (Returned ret)), v')
              else (([call], None), v')))"

text \<open>Lines 91 to 99, 102 to 110 and 126 to 134: the alternate modes of one recipient.\<close>

definition alternate_modes ::
  "'s libtypec_rs_h \<Rightarrow> ptr \<Rightarrow> UcsiGetAlternateModesRecipient \<Rightarrow> size_t \<Rightarrow> 's stmt" where
  "alternate_modes L typec recipient connector_nr v =
     (case libtypec_rs_get_alternate_modes L typec recipient connector_nr (lib v) of
        ((ret, (alt_modes, nmodes, modes_mem_sz)), s) \<Rightarrow>
          (let call = Call (GetAlternateModes typec recipient connector_nr) Unobserved ret
                       (Buffer alt_modes nmodes modes_mem_sz);
               v' = v\<lparr>lib := s\<rparr>
           in if ret = 0 then
                (([call, DestroyAlternateModes alt_modes nmodes modes_mem_sz], None),
                 v'\<lparr>lib := libtypec_rs_destroy_alternate_modes L alt_modes nmodes modes_mem_sz s\<rparr>)
              else if ret \<noteq> - ENOTSUP then (([call], Some (Returned ret)), v')
              else (([call], None), v')))"

text \<open>Lines 112 to 123: the Discover Identity message of the cable plug (SOP').\<close>

definition pd_message_sop_prime :: "'s libtypec_rs_h \<Rightarrow> ptr \<Rightarrow> size_t \<Rightarrow> 's stmt" where
  "pd_message_sop_prime L typec connector_nr v =
     (case libtypec_rs_get_pd_message L typec connector_nr PdMessageRecipient_SopPrime
             PdMessageResponseType_DiscoverIdentity (lib v) of
        ((ret, pd_msg), s) \<Rightarrow>
          (let call = Call (GetPdMessage typec connector_nr PdMessageRecipient_SopPrime
                         PdMessageResponseType_DiscoverIdentity) Unobserved ret (Message pd_msg);
               v' = v\<lparr>lib := s\<rparr>
           in if ret = 0 then
                (([call, DestroyPdMessage pd_msg], None),
                 v'\<lparr>lib := libtypec_rs_destroy_pd_message L pd_msg s\<rparr>)
              else if ret \<noteq> - ENOTSUP then (([call], Some (Returned ret)), v')
              else (([call], None), v')))"

text \<open>Lines 136 to 145: the Discover Identity message of the partner (SOP).\<close>

definition pd_message_sop :: "'s libtypec_rs_h \<Rightarrow> ptr \<Rightarrow> size_t \<Rightarrow> 's stmt" where
  "pd_message_sop L typec connector_nr v =
     (case libtypec_rs_get_pd_message L typec connector_nr PdMessageRecipient_Sop
             PdMessageResponseType_DiscoverIdentity (lib v) of
        ((ret, pd_msg), s) \<Rightarrow>
          (let call = Call (GetPdMessage typec connector_nr PdMessageRecipient_Sop
                         PdMessageResponseType_DiscoverIdentity) Unobserved ret (Message pd_msg);
               v' = v\<lparr>lib := s\<rparr>
           in if ret = 0 then (([call], None), v')
              else if ret \<noteq> - ENOTSUP then (([call], Some (Returned ret)), v')
              else (([call], None), v')))"

text \<open>
  Statements in sequence: the second runs when the first falls through, and a \<open>return\<close>
  or a failed \<open>assert\<close> ends the sequence.
\<close>

fun run_stmts :: "'s stmt list \<Rightarrow> 's stmt" where
  "run_stmts [] v = (([], None), v)"
| "run_stmts (f # fs) v =
     (case f v of
        ((es, Some out), v') \<Rightarrow> ((es, Some out), v')
      | ((es, None), v') \<Rightarrow>
          (case run_stmts fs v' of ((es', out), v'') \<Rightarrow> ((es @ es', out), v'')))"

text \<open>Lines 42 to 175: the body of the loop, for one connector.\<close>

definition connector_body :: "'s libtypec_rs_h \<Rightarrow> ptr \<Rightarrow> UcsiCapability \<Rightarrow> size_t \<Rightarrow> 's stmt" where
  "connector_body L typec capabilities connector_nr =
     run_stmts
       [conn_capabilities L typec connector_nr,
        pdos L typec connector_nr False UcsiPdoType_Source (pd_version capabilities),
        pdos L typec connector_nr False UcsiPdoType_Sink (pd_version capabilities),
        cable_properties L typec connector_nr,
        alternate_modes L typec UcsiGetAlternateModesRecipient_Connector connector_nr,
        alternate_modes L typec UcsiGetAlternateModesRecipient_SopPrime connector_nr,
        pd_message_sop_prime L typec connector_nr,
        alternate_modes L typec UcsiGetAlternateModesRecipient_Sop connector_nr,
        pd_message_sop L typec connector_nr,
        reset_pdos,
        pdos L typec connector_nr True UcsiPdoType_Source (pd_version capabilities),
        reset_pdos,
        pdos L typec connector_nr True UcsiPdoType_Sink (pd_version capabilities)]"

text \<open>
  Lines 40 to 176: the loop over the connectors, from \<open>connector_nr\<close> on. The counter is a
  64-bit word; it stays below \<open>num_connectors\<close> where it is incremented, so it never wraps.
\<close>

function connector_loop :: "'s libtypec_rs_h \<Rightarrow> ptr \<Rightarrow> UcsiCapability \<Rightarrow> size_t \<Rightarrow> 's stmt" where
  "connector_loop L typec capabilities connector_nr v =
     (if connector_nr < num_connectors capabilities then
        (case connector_body L typec capabilities connector_nr v of
           ((es, Some out), v') \<Rightarrow> ((es, Some out), v')
         | ((es, None), v') \<Rightarrow>
             (case connector_loop L typec capabilities (connector_nr + 1) v' of
                ((es', out), v'') \<Rightarrow> ((es @ es', out), v'')))
      else (([], None), v))"
  by pat_completeness auto

termination
proof (relation "measure (\<lambda>(L, typec, capabilities, connector_nr, v).
        unat (num_connectors capabilities) - unat connector_nr)", goal_cases)
  case 1
  show ?case by simp
next
  case (2 L typec capabilities connector_nr v)
  then have below: "unat connector_nr < unat (num_connectors capabilities)"
    by (simp add: word_less_nat_alt)
  moreover have "unat (num_connectors capabilities) < 2 ^ 64"
    using unsigned_less [of "num_connectors capabilities"] by simp
  ultimately have "unat (connector_nr + 1) = Suc (unat connector_nr)"
    by (simp add: unat_word_ariths)
  with below show ?case by simp
qed

text \<open>Line 23: \<open>backend ? backend : OsBackends_Sysfs\<close>.\<close>

definition backend_type :: "'s libtypec_rs_h \<Rightarrow> c_uint \<Rightarrow> c_uint" where
  "backend_type L backend = (if backend \<noteq> 0 then backend else OsBackends_Sysfs L)"

text \<open>
  Lines 17 to 181. The result is the events in the order they happened, the way the function
  ended, and the library's state at that point.
\<close>

definition c_example_lstypec ::
  "'s libtypec_rs_h \<Rightarrow> c_uint \<Rightarrow> 's \<Rightarrow> event list \<times> outcome \<times> 's" where
  "c_example_lstypec L backend s0 =
     (case libtypec_rs_new L (backend_type L backend) s0 of
        ((ret, typec), s1) \<Rightarrow>
          (let new = Call (New (backend_type L backend)) Unobserved ret (Handle typec) in
           if typec = NULL then ([new], Returned ret, s1)
           else
             (case libtypec_rs_get_capabilities L typec s1 of
                ((ret, capabilities), s2) \<Rightarrow>
                  (let caps = Call (GetCapabilities typec) Unobserved ret (Capability capabilities) in
                   if ret \<noteq> 0 then ([new, caps], Returned ret, s2)
                   else
                     (case connector_loop L typec capabilities 0
                             \<lparr>lib = s2, out_pdos = NULL, out_npdos = 0, out_mem_sz = 0\<rparr> of
                        ((es, Some out), v) \<Rightarrow> (new # caps # es, out, lib v)
                      | ((es, None), v) \<Rightarrow>
                          (new # caps # es @ [Destroy typec], Returned 0,
                           libtypec_rs_destroy L typec (lib v)))))))"

section \<open>Vocabulary of the properties\<close>

subsection \<open>Kinds of queries\<close>

text \<open>The connector a query is about; \<open>None\<close> for the two queries made before the loop.\<close>

fun connector_of :: "query \<Rightarrow> size_t option" where
  "connector_of (New b) = None"
| "connector_of (GetCapabilities t) = None"
| "connector_of (GetConnCapabilities t i) = Some i"
| "connector_of (GetPdos t i partner off num ty sc pdv) = Some i"
| "connector_of (GetCableProperties t i) = Some i"
| "connector_of (GetAlternateModes t r i) = Some i"
| "connector_of (GetPdMessage t i r ty) = Some i"

fun is_conn_capabilities :: "query \<Rightarrow> bool" where
  "is_conn_capabilities (GetConnCapabilities t i) = True"
| "is_conn_capabilities q = False"

fun is_get_capabilities :: "query \<Rightarrow> bool" where
  "is_get_capabilities (GetCapabilities t) = True"
| "is_get_capabilities q = False"

fun is_get_pdos :: "query \<Rightarrow> bool" where
  "is_get_pdos (GetPdos t i partner off num ty sc pdv) = True"
| "is_get_pdos q = False"

fun is_get_alternate_modes :: "query \<Rightarrow> bool" where
  "is_get_alternate_modes (GetAlternateModes t r i) = True"
| "is_get_alternate_modes q = False"

fun conn_capabilities_index :: "query \<Rightarrow> size_t option" where
  "conn_capabilities_index (GetConnCapabilities t i) = Some i"
| "conn_capabilities_index q = None"

subsection \<open>Events and what follows them\<close>

text \<open>
  \<open>each_with_rest P es\<close>: every event of \<open>es\<close> satisfies \<open>P\<close> together with the events
  that come after it.
\<close>

fun each_with_rest :: "('a \<Rightarrow> 'a list \<Rightarrow> bool) \<Rightarrow> 'a list \<Rightarrow> bool" where
  "each_with_rest P [] = True"
| "each_with_rest P (e # es) = (P e es \<and> each_with_rest P es)"

text \<open>
  The events a statement of the function can start with: a query, or the final
  \<open>libtypec_rs_destroy\<close>. The other destroy calls only follow the query whose result they
  release.
\<close>

fun starts_statement :: "event \<Rightarrow> bool" where
  "starts_statement (Call q a ret b) = True"
| "starts_statement (Destroy t) = True"
| "starts_statement e = False"

text \<open>
  \<open>begins es out\<close>: the events \<open>es\<close> of some statements, which end with \<open>out\<close>, start with a
  new statement; without any event the statements fall through.
\<close>

fun begins :: "event list \<Rightarrow> outcome option \<Rightarrow> bool" where
  "begins [] out = (out = None)"
| "begins (e # es) out = starts_statement e"

text \<open>
  \<open>stmt_sat P f\<close>: in every run of the statements \<open>f\<close>, each event satisfies \<open>P\<close> together
  with the events after it and the way \<open>f\<close> ends, and the events begin with a new statement.
  \<open>extends P\<close>: what \<open>P\<close> says of an event of statements that fell through stays true when
  the events of the statements after them are added.
\<close>

definition stmt_sat :: "(event \<Rightarrow> event list \<Rightarrow> outcome option \<Rightarrow> bool) \<Rightarrow> 's stmt \<Rightarrow> bool" where
  "stmt_sat P f =
     (\<forall>v es out v'. f v = ((es, out), v') \<longrightarrow>
        each_with_rest (\<lambda>e r. P e r out) es \<and> begins es out)"

definition extends :: "(event \<Rightarrow> event list \<Rightarrow> outcome option \<Rightarrow> bool) \<Rightarrow> bool" where
  "extends P = (\<forall>e r es out. P e r None \<longrightarrow> begins es out \<longrightarrow> P e (r @ es) out)"

text \<open>What comes next, if anything, starts a statement.\<close>

fun then_statement :: "event list \<Rightarrow> bool" where
  "then_statement [] = True"
| "then_statement (e # r) = starts_statement e"

text \<open>The events of the function's own beginning and end, outside the loop.\<close>

fun outer :: "event \<Rightarrow> bool" where
  "outer (Call (New b) x ret y) = True"
| "outer (Call (GetCapabilities t) x ret y) = True"
| "outer (Destroy t) = True"
| "outer e = False"

subsection \<open>The guards after a query\<close>

text \<open>
  \<open>fatal q ret\<close>: the status \<open>ret\<close> of the per-connector query \<open>q\<close> takes the \<open>return ret\<close>
  branch after it: \<open>ret < 0\<close> after \<open>libtypec_rs_get_conn_capabilities\<close> (line 45),
  \<open>ret\<close> neither 0 nor \<open>-ENOTSUP\<close> after the others (lines 58, 72, 82, 96, 107, 119, 131,
  141, 157 and 172).
\<close>

definition fatal :: "query \<Rightarrow> c_int \<Rightarrow> bool" where
  "fatal q ret =
     (connector_of q \<noteq> None \<and>
      (if is_conn_capabilities q then sint ret < 0 else ret \<noteq> 0 \<and> ret \<noteq> - ENOTSUP))"

text \<open>A query with a fatal status is the last event, and the function returns the status.\<close>

fun returned :: "event \<Rightarrow> event list \<Rightarrow> outcome option \<Rightarrow> bool" where
  "returned (Call q a ret b) r out = (fatal q ret \<longrightarrow> r = [] \<and> out = Some (Returned ret))"
| "returned e r out = True"

text \<open>
  After \<open>-ENOTSUP\<close> from a per-connector query other than
  \<open>libtypec_rs_get_conn_capabilities\<close> the function goes on with a new statement.
\<close>

fun skipped :: "event \<Rightarrow> event list \<Rightarrow> outcome option \<Rightarrow> bool" where
  "skipped (Call q a ret b) r out =
     (connector_of q \<noteq> None \<and> \<not> is_conn_capabilities q \<and> ret = - ENOTSUP \<longrightarrow> begins r out)"
| "skipped e r out = True"

text \<open>A per-connector query is about a connector below the given number.\<close>

fun in_range :: "size_t \<Rightarrow> event \<Rightarrow> event list \<Rightarrow> outcome option \<Rightarrow> bool" where
  "in_range n (Call q a ret b) r out = (case connector_of q of None \<Rightarrow> True | Some i \<Rightarrow> i < n)"
| "in_range n e r out = True"

text \<open>
  What follows a variable-length query that succeeded: the matching destroy call with the
  three values of the query, or, for a PDO query that left the pointer null, the failed
  \<open>assert\<close>.
\<close>

fun next_is :: "event list \<Rightarrow> event \<Rightarrow> bool" where
  "next_is [] x = False"
| "next_is (e # r) x = (e = x)"

fun released :: "event \<Rightarrow> event list \<Rightarrow> outcome option \<Rightarrow> bool" where
  "released (Call q a ret (Buffer p n sz)) r out =
     ((ret = 0 \<and> is_get_pdos q \<and> p \<noteq> NULL \<longrightarrow> next_is r (DestroyPdos p n sz)) \<and>
      (ret = 0 \<and> is_get_pdos q \<and> p = NULL \<longrightarrow> r = [] \<and> out = Some Aborted) \<and>
      (ret = 0 \<and> is_get_alternate_modes q \<longrightarrow> next_is r (DestroyAlternateModes p n sz)))"
| "released e r out = True"

text \<open>
  Inside the loop: no event is the final \<open>libtypec_rs_destroy\<close>, and the loop is not left
  by a \<open>return\<close> of 0.
\<close>

fun session_kept :: "event \<Rightarrow> event list \<Rightarrow> outcome option \<Rightarrow> bool" where
  "session_kept (Destroy t) r out = False"
| "session_kept e r out = (r = [] \<longrightarrow> out \<noteq> Some (Returned 0))"

text \<open>
  \<open>releases d e\<close>: the destroy call \<open>d\<close> is the one the function makes right after the
  successful query \<open>e\<close>, with the result of \<open>e\<close>: lines 57, 71, 156 and 171 for the PDOs,
  lines 95, 106 and 130 for the alternate modes, line 118 for the PD message of SOP'.
\<close>

fun releases :: "event \<Rightarrow> event \<Rightarrow> bool" where
  "releases (DestroyPdos p n sz) (Call q a ret (Buffer p' n' sz')) =
     (is_get_pdos q \<and> ret = 0 \<and> p' = p \<and> n' = n \<and> sz' = sz)"
| "releases (DestroyAlternateModes p n sz) (Call q a ret (Buffer p' n' sz')) =
     (is_get_alternate_modes q \<and> ret = 0 \<and> p' = p \<and> n' = n \<and> sz' = sz)"
| "releases (DestroyPdMessage m) (Call (GetPdMessage t i PdMessageRecipient_SopPrime ty) a ret (Message m')) =
     (ret = 0 \<and> m' = m)"
| "releases d e = False"

text \<open>The event after \<open>e\<close> starts a statement, or releases the result of \<open>e\<close>.\<close>

fun paired :: "event \<Rightarrow> event list \<Rightarrow> outcome option \<Rightarrow> bool" where
  "paired e [] out = True"
| "paired e (d # r) out = (starts_statement d \<or> releases d e)"



subsection \<open>The library's PDO query, from the specification\<close>

text \<open>Modelled from the spec: the error taxonomy of section 7.\<close>

datatype lib_error = Unsupported | TransportError | ProtocolError | InvalidArgument

text \<open>
  Modelled from the spec: the status the library returns for an error; the library's code
  is not among the sources verified here. Section 6: 0 is success, negative values mirror POSIX error numbers,
  with a dedicated code for "not supported". The numbers beside \<open>ENOTSUP\<close> are those of
  \<open>EIO\<close>, \<open>EPROTO\<close> and \<open>EINVAL\<close> on Linux.
\<close>

definition status_code :: "lib_error \<Rightarrow> c_int" where
  "status_code e =
     (case e of
        Unsupported \<Rightarrow> - ENOTSUP
      | TransportError \<Rightarrow> - 5
      | ProtocolError \<Rightarrow> - 71
      | InvalidArgument \<Rightarrow> - 22)"



subsection \<open>The fixed sequence of queries\<close>

fun query_of :: "event \<Rightarrow> query option" where
  "query_of (Call q a ret b) = Some q"
| "query_of e = None"

text \<open>The queries of a run, in order, without their results and without the destroy calls.\<close>

definition queries :: "event list \<Rightarrow> query list" where
  "queries es = List.map_filter query_of es"

text \<open>
  The sequence of section 4.2 of the specification, as the loop body spells it out for the
  connector \<open>i\<close>, the session \<open>typec\<close> and the PD version \<open>pdv\<close>: eleven queries.
\<close>

definition connector_queries :: "ptr \<Rightarrow> 32 word \<Rightarrow> size_t \<Rightarrow> query list" where
  "connector_queries typec pdv i =
     [GetConnCapabilities typec i,
      GetPdos typec i False 0 0 UcsiPdoType_Source
        UcsiPdoSourceCapabilitiesType_CurrentSupportedSourceCapabilities pdv,
      GetPdos typec i False 0 0 UcsiPdoType_Sink
        UcsiPdoSourceCapabilitiesType_CurrentSupportedSourceCapabilities pdv,
      GetCableProperties typec i,
      GetAlternateModes typec UcsiGetAlternateModesRecipient_Connector i,
      GetAlternateModes typec UcsiGetAlternateModesRecipient_SopPrime i,
      GetPdMessage typec i PdMessageRecipient_SopPrime PdMessageResponseType_DiscoverIdentity,
      GetAlternateModes typec UcsiGetAlternateModesRecipient_Sop i,
      GetPdMessage typec i PdMessageRecipient_Sop PdMessageResponseType_DiscoverIdentity,
      GetPdos typec i True 0 0 UcsiPdoType_Source
        UcsiPdoSourceCapabilitiesType_CurrentSupportedSourceCapabilities pdv,
      GetPdos typec i True 0 0 UcsiPdoType_Sink
        UcsiPdoSourceCapabilitiesType_CurrentSupportedSourceCapabilities pdv]"

text \<open>The queries of the connectors from \<open>i\<close> up to the last one, in increasing order.\<close>

definition queries_from :: "ptr \<Rightarrow> UcsiCapability \<Rightarrow> size_t \<Rightarrow> query list" where
  "queries_from typec caps i =
     concat (map (\<lambda>k. connector_queries typec (pd_version caps) (word_of_nat k))
       [unat i..<unat (num_connectors caps)])"

text \<open>
  The whole sequence for a backend kind, a session handle and a capability result: the
  construction, the capabilities, then the connectors from 0 on.
\<close>

definition all_queries :: "c_uint \<Rightarrow> ptr \<Rightarrow> UcsiCapability \<Rightarrow> query list" where
  "all_queries b typec caps = New b # GetCapabilities typec # queries_from typec caps 0"

text \<open>A statement issues the same queries whatever the state and the library's answers.\<close>

definition issues :: "'s stmt \<Rightarrow> query list \<Rightarrow> bool" where
  "issues f qs = (\<forall>v. queries (fst (fst (f v))) = qs)"

subsection \<open>Events and the library's state\<close>

text \<open>
  \<open>apply_event L e s\<close>: the state of the library \<open>L\<close> after the call the event \<open>e\<close> stands
  for, made in the state \<open>s\<close>: for a query the library's function applied to the arguments
  of the query (and, for the PDO query, to the contents of the three locals before the
  call), for a destroy call the library's destroy function applied to its arguments.
\<close>

fun apply_event :: "'s libtypec_rs_h \<Rightarrow> event \<Rightarrow> 's \<Rightarrow> 's" where
  "apply_event L (Call (New b) a ret out) s = snd (libtypec_rs_new L b s)"
| "apply_event L (Call (GetCapabilities t) a ret out) s = snd (libtypec_rs_get_capabilities L t s)"
| "apply_event L (Call (GetConnCapabilities t i) a ret out) s =
     snd (libtypec_rs_get_conn_capabilities L t i s)"
| "apply_event L (Call (GetPdos t i partner off num ty sc pdv) (Buffer p n sz) ret out) s =
     snd (libtypec_rs_get_pdos L t i partner off num ty sc pdv (p, n, sz) s)"
| "apply_event L (Call (GetCableProperties t i) a ret out) s =
     snd (libtypec_rs_get_cable_properties L t i s)"
| "apply_event L (Call (GetAlternateModes t r i) a ret out) s =
     snd (libtypec_rs_get_alternate_modes L t r i s)"
| "apply_event L (Call (GetPdMessage t i r ty) a ret out) s =
     snd (libtypec_rs_get_pd_message L t i r ty s)"
| "apply_event L (DestroyPdos p n sz) s = libtypec_rs_destroy_pdos L p n sz s"
| "apply_event L (DestroyAlternateModes p n sz) s = libtypec_rs_destroy_alternate_modes L p n sz s"
| "apply_event L (DestroyPdMessage m) s = libtypec_rs_destroy_pd_message L m s"
| "apply_event L (Destroy t) s = libtypec_rs_destroy L t s"
| "apply_event L e s = s"

text \<open>The state of the library after the calls of the events, made one after the other.\<close>

fun replay :: "'s libtypec_rs_h \<Rightarrow> event list \<Rightarrow> 's \<Rightarrow> 's" where
  "replay L [] s = s"
| "replay L (e # es) s = replay L es (apply_event L e s)"

text \<open>
  \<open>answers L e s\<close>: the status and the out-parameters the event \<open>e\<close> records are the ones the
  library \<open>L\<close> yields for the call in the state \<open>s\<close>. A destroy call yields nothing.
\<close>

fun answers :: "'s libtypec_rs_h \<Rightarrow> event \<Rightarrow> 's \<Rightarrow> bool" where
  "answers L (Call (New b) a ret (Handle t)) s = (fst (libtypec_rs_new L b s) = (ret, t))"
| "answers L (Call (GetCapabilities t) a ret (Capability c)) s =
     (fst (libtypec_rs_get_capabilities L t s) = (ret, c))"
| "answers L (Call (GetConnCapabilities t i) a ret out) s =
     (fst (libtypec_rs_get_conn_capabilities L t i s) = ret)"
| "answers L (Call (GetPdos t i partner off num ty sc pdv) (Buffer p0 n0 z0) ret (Buffer p n z)) s =
     (fst (libtypec_rs_get_pdos L t i partner off num ty sc pdv (p0, n0, z0) s) = (ret, (p, n, z)))"
| "answers L (Call (GetCableProperties t i) a ret out) s =
     (fst (libtypec_rs_get_cable_properties L t i s) = ret)"
| "answers L (Call (GetAlternateModes t r i) a ret (Buffer p n z)) s =
     (fst (libtypec_rs_get_alternate_modes L t r i s) = (ret, (p, n, z)))"
| "answers L (Call (GetPdMessage t i r ty) a ret (Message m)) s =
     (fst (libtypec_rs_get_pd_message L t i r ty s) = (ret, m))"
| "answers L (Call q a ret out) s = False"
| "answers L e s = True"

text \<open>Every event of the list records what the library yields, in the state it is made in.\<close>

fun faithful :: "'s libtypec_rs_h \<Rightarrow> event list \<Rightarrow> 's \<Rightarrow> bool" where
  "faithful L [] s = True"
| "faithful L (e # es) s = (answers L e s \<and> faithful L es (apply_event L e s))"

text \<open>
  \<open>stmt_performs L f\<close>: the events of the statements \<open>f\<close> record what the library yields,
  and the library ends in the state the calls of the events lead to.
\<close>

definition stmt_performs :: "'s libtypec_rs_h \<Rightarrow> 's stmt \<Rightarrow> bool" where
  "stmt_performs L f =
     (\<forall>v es out v'. f v = ((es, out), v') \<longrightarrow>
        faithful L es (lib v) \<and> lib v' = replay L es (lib v))"

subsection \<open>The partner's PDO queries\<close>



subsection \<open>A library for tests\<close>

text \<open>
  A library that answers every query with the status a given function assigns to it. Its
  state counts the buffers handed out. \<open>libtypec_rs_new\<close> yields the given handle, the
  capabilities name the given number of connectors and PD version 3.1, and a successful
  variable-length query yields a fresh buffer.
\<close>

definition scripted :: "ptr \<Rightarrow> size_t \<Rightarrow> (query \<Rightarrow> c_int) \<Rightarrow> nat libtypec_rs_h" where
  "scripted handle n status =
     \<lparr>OsBackends_Sysfs = 0,
      libtypec_rs_new = (\<lambda>b s. ((status (New b), handle), s)),
      libtypec_rs_get_capabilities =
        (\<lambda>t s. ((status (GetCapabilities t), \<lparr>num_connectors = n, pd_version = 0x0301\<rparr>), s)),
      libtypec_rs_get_conn_capabilities = (\<lambda>t i s. (status (GetConnCapabilities t i), s)),
      libtypec_rs_get_pdos =
        (\<lambda>t i partner off num ty sc pdv out s.
           if status (GetPdos t i partner off num ty sc pdv) = 0
           then ((0, (handle + Suc s, 2, 8)), Suc s)
           else ((status (GetPdos t i partner off num ty sc pdv), out), s)),
      libtypec_rs_get_cable_properties = (\<lambda>t i s. (status (GetCableProperties t i), s)),
      libtypec_rs_get_alternate_modes =
        (\<lambda>t r i s.
           if status (GetAlternateModes t r i) = 0
           then ((0, (handle + Suc s, 1, 16)), Suc s)
           else ((status (GetAlternateModes t r i), (NULL, 0, 0)), s)),
      libtypec_rs_get_pd_message =
        (\<lambda>t i r ty s. ((status (GetPdMessage t i r ty), [0xFF008041]), s)),
      libtypec_rs_destroy_pdos = (\<lambda>p n sz s. s),
      libtypec_rs_destroy_alternate_modes = (\<lambda>p n sz s. s),
      libtypec_rs_destroy_pd_message = (\<lambda>m s. s),
      libtypec_rs_destroy = (\<lambda>t s. s)\<rparr>"

text \<open>Statuses for tests: every query succeeds; one kind of query fails, the others succeed.\<close>

definition all_ok :: "query \<Rightarrow> c_int" where
  "all_ok q = 0"

definition conn_capabilities_fails :: "c_int \<Rightarrow> query \<Rightarrow> c_int" where
  "conn_capabilities_fails ret q = (if is_conn_capabilities q then ret else 0)"

text \<open>
  A platform with none of the optional features: \<open>libtypec_rs_get_conn_capabilities\<close> yields
  the given status, every other per-connector query \<open>-ENOTSUP\<close>.
\<close>

definition sparse :: "c_int \<Rightarrow> query \<Rightarrow> c_int" where
  "sparse ret q =
     (if is_conn_capabilities q then ret else if connector_of q \<noteq> None then - ENOTSUP else 0)"

text \<open>The events of the run in which every query succeeds, with one connector.\<close>

definition all_ok_events :: "event list" where
  "all_ok_events =
     [Call (New 0) Unobserved 0 (Handle 1),
      Call (GetCapabilities 1) Unobserved 0
        (Capability \<lparr>num_connectors = 1, pd_version = 0x0301\<rparr>),
      Call (GetConnCapabilities 1 0) Unobserved 0 Unobserved,
      Call (GetPdos 1 0 False 0 0 UcsiPdoType_Source
              UcsiPdoSourceCapabilitiesType_CurrentSupportedSourceCapabilities 0x0301)
        (Buffer 0 0 0) 0 (Buffer 2 2 8),
      DestroyPdos 2 2 8,
      Call (GetPdos 1 0 False 0 0 UcsiPdoType_Sink
              UcsiPdoSourceCapabilitiesType_CurrentSupportedSourceCapabilities 0x0301)
        (Buffer 2 2 8) 0 (Buffer 3 2 8),
      DestroyPdos 3 2 8,
      Call (GetCableProperties 1 0) Unobserved 0 Unobserved,
      Call (GetAlternateModes 1 UcsiGetAlternateModesRecipient_Connector 0)
        Unobserved 0 (Buffer 4 1 16),
      DestroyAlternateModes 4 1 16,
      Call (GetAlternateModes 1 UcsiGetAlternateModesRecipient_SopPrime 0)
        Unobserved 0 (Buffer 5 1 16),
      DestroyAlternateModes 5 1 16,
      Call (GetPdMessage 1 0 PdMessageRecipient_SopPrime PdMessageResponseType_DiscoverIdentity)
        Unobserved 0 (Message [0xFF008041]),
      DestroyPdMessage [0xFF008041],
      Call (GetAlternateModes 1 UcsiGetAlternateModesRecipient_Sop 0)
        Unobserved 0 (Buffer 6 1 16),
      DestroyAlternateModes 6 1 16,
      Call (GetPdMessage 1 0 PdMessageRecipient_Sop PdMessageResponseType_DiscoverIdentity)
        Unobserved 0 (Message [0xFF008041]),
      Call (GetPdos 1 0 True 0 0 UcsiPdoType_Source
              UcsiPdoSourceCapabilitiesType_CurrentSupportedSourceCapabilities 0x0301)
        (Buffer 0 0 0) 0 (Buffer 7 2 8),
      DestroyPdos 7 2 8,
      Call (GetPdos 1 0 True 0 0 UcsiPdoType_Sink
              UcsiPdoSourceCapabilitiesType_CurrentSupportedSourceCapabilities 0x0301)
        (Buffer 0 0 0) 0 (Buffer 8 2 8),
      DestroyPdos 8 2 8,
      Destroy 1]"

text \<open>
  The events of the run on a platform with none of the optional features, with one
  connector whose capabilities query yields \<open>ret\<close>, not negative.
\<close>

definition sparse_events :: "c_int \<Rightarrow> event list" where
  "sparse_events ret =
     [Call (New 0) Unobserved 0 (Handle 1),
      Call (GetCapabilities 1) Unobserved 0
        (Capability \<lparr>num_connectors = 1, pd_version = 0x0301\<rparr>),
      Call (GetConnCapabilities 1 0) Unobserved ret Unobserved,
      Call (GetPdos 1 0 False 0 0 UcsiPdoType_Source
              UcsiPdoSourceCapabilitiesType_CurrentSupportedSourceCapabilities 0x0301)
        (Buffer 0 0 0) (- ENOTSUP) (Buffer 0 0 0),
      Call (GetPdos 1 0 False 0 0 UcsiPdoType_Sink
              UcsiPdoSourceCapabilitiesType_CurrentSupportedSourceCapabilities 0x0301)
        (Buffer 0 0 0) (- ENOTSUP) (Buffer 0 0 0),
      Call (GetCableProperties 1 0) Unobserved (- ENOTSUP) Unobserved,
      Call (GetAlternateModes 1 UcsiGetAlternateModesRecipient_Connector 0)
        Unobserved (- ENOTSUP) (Buffer 0 0 0),
      Call (GetAlternateModes 1 UcsiGetAlternateModesRecipient_SopPrime 0)
        Unobserved (- ENOTSUP) (Buffer 0 0 0),
      Call (GetPdMessage 1 0 PdMessageRecipient_SopPrime PdMessageResponseType_DiscoverIdentity)
        Unobserved (- ENOTSUP) (Message [0xFF008041]),
      Call (GetAlternateModes 1 UcsiGetAlternateModesRecipient_Sop 0)
        Unobserved (- ENOTSUP) (Buffer 0 0 0),
      Call (GetPdMessage 1 0 PdMessageRecipient_Sop PdMessageResponseType_DiscoverIdentity)
        Unobserved (- ENOTSUP) (Message [0xFF008041]),
      Call (GetPdos 1 0 True 0 0 UcsiPdoType_Source
              UcsiPdoSourceCapabilitiesType_CurrentSupportedSourceCapabilities 0x0301)
        (Buffer 0 0 0) (- ENOTSUP) (Buffer 0 0 0),
      Call (GetPdos 1 0 True 0 0 UcsiPdoType_Sink
              UcsiPdoSourceCapabilitiesType_CurrentSupportedSourceCapabilities 0x0301)
        (Buffer 0 0 0) (- ENOTSUP) (Buffer 0 0 0),
      Destroy 1]"




text \<open>
  The events of the run on a platform with none of the optional features and two
  connectors: the construction and the capabilities, the events of connector 0, those of
  connector 1, and the final destroy call.
\<close>

definition sparse_connector_events :: "size_t \<Rightarrow> event list" where
  "sparse_connector_events i =
     [Call (GetConnCapabilities 1 i) Unobserved 0 Unobserved,
      Call (GetPdos 1 i False 0 0 UcsiPdoType_Source
              UcsiPdoSourceCapabilitiesType_CurrentSupportedSourceCapabilities 0x0301)
        (Buffer 0 0 0) (- ENOTSUP) (Buffer 0 0 0),
      Call (GetPdos 1 i False 0 0 UcsiPdoType_Sink
              UcsiPdoSourceCapabilitiesType_CurrentSupportedSourceCapabilities 0x0301)
        (Buffer 0 0 0) (- ENOTSUP) (Buffer 0 0 0),
      Call (GetCableProperties 1 i) Unobserved (- ENOTSUP) Unobserved,
      Call (GetAlternateModes 1 UcsiGetAlternateModesRecipient_Connector i)
        Unobserved (- ENOTSUP) (Buffer 0 0 0),
      Call (GetAlternateModes 1 UcsiGetAlternateModesRecipient_SopPrime i)
        Unobserved (- ENOTSUP) (Buffer 0 0 0),
      Call (GetPdMessage 1 i PdMessageRecipient_SopPrime PdMessageResponseType_DiscoverIdentity)
        Unobserved (- ENOTSUP) (Message [0xFF008041]),
      Call (GetAlternateModes 1 UcsiGetAlternateModesRecipient_Sop i)
        Unobserved (- ENOTSUP) (Buffer 0 0 0),
      Call (GetPdMessage 1 i PdMessageRecipient_Sop PdMessageResponseType_DiscoverIdentity)
        Unobserved (- ENOTSUP) (Message [0xFF008041]),
      Call (GetPdos 1 i True 0 0 UcsiPdoType_Source
              UcsiPdoSourceCapabilitiesType_CurrentSupportedSourceCapabilities 0x0301)
        (Buffer 0 0 0) (- ENOTSUP) (Buffer 0 0 0),
      Call (GetPdos 1 i True 0 0 UcsiPdoType_Sink
              UcsiPdoSourceCapabilitiesType_CurrentSupportedSourceCapabilities 0x0301)
        (Buffer 0 0 0) (- ENOTSUP) (Buffer 0 0 0)]"

definition sparse_two_head :: "event list" where
  "sparse_two_head =
     [Call (New 0) Unobserved 0 (Handle 1),
      Call (GetCapabilities 1) Unobserved 0
        (Capability \<lparr>num_connectors = 2, pd_version = 0x0301\<rparr>)]"

definition sparse_two_events :: "event list" where
  "sparse_two_events =
     sparse_two_head @ sparse_connector_events 0 @ sparse_connector_events 1 @ [Destroy 1]"

section \<open>Reasoning about the events of a run\<close>

declare connector_loop.simps [simp del]

lemmas stmt_defs = conn_capabilities_def pdos_def reset_pdos_def cable_properties_def
  alternate_modes_def pd_message_sop_prime_def pd_message_sop_def

lemma ENOTSUP_neq_0 [simp]: "ENOTSUP \<noteq> 0" "- ENOTSUP \<noteq> 0" "0 \<noteq> - ENOTSUP"
  by (simp_all add: ENOTSUP_def)

lemma sint_neg_ENOTSUP [simp]: "sint (- ENOTSUP) < 0"
  by (simp add: ENOTSUP_def)

lemma each_with_rest_split: "each_with_rest P es \<Longrightarrow> es = pre @ e # post \<Longrightarrow> P e post"
  by (induction pre arbitrary: es) auto

lemma each_with_rest_append:
  "each_with_rest P (xs @ ys) = (each_with_rest (\<lambda>e r. P e (r @ ys)) xs \<and> each_with_rest P ys)"
  by (induction xs) auto

lemma each_with_rest_mono:
  "each_with_rest P xs \<Longrightarrow> (\<And>e r. P e r \<Longrightarrow> Q e r) \<Longrightarrow> each_with_rest Q xs"
  by (induction xs) auto

lemma each_with_rest_set: "each_with_rest (\<lambda>e r. Q e) es = (\<forall>e\<in>set es. Q e)"
  by (induction es) auto

lemma begins_append: "begins es None \<Longrightarrow> begins es' out \<Longrightarrow> begins (es @ es') out"
  by (cases es) auto

lemma stmt_satD:
  "stmt_sat P f \<Longrightarrow> f v = ((es, out), v') \<Longrightarrow>
   each_with_rest (\<lambda>e r. P e r out) es \<and> begins es out"
  unfolding stmt_sat_def by blast

text \<open>Two runs of statements one after the other, the first falling through.\<close>

lemma seq_sat:
  assumes ext: "extends P"
    and 1: "each_with_rest (\<lambda>e r. P e r None) es \<and> begins es None"
    and 2: "each_with_rest (\<lambda>e r. P e r out) es' \<and> begins es' out"
  shows "each_with_rest (\<lambda>e r. P e r out) (es @ es') \<and> begins (es @ es') out"
proof -
  have "each_with_rest (\<lambda>e r. P e (r @ es') out) es"
    using 1 2 ext by (auto simp: extends_def elim: each_with_rest_mono)
  then show ?thesis
    using 1 2 by (simp add: each_with_rest_append begins_append)
qed

lemma run_stmts_sat:
  assumes ext: "extends P"
  shows "\<forall>f\<in>set fs. stmt_sat P f \<Longrightarrow> stmt_sat P (run_stmts fs)"
proof (induction fs)
  case Nil
  show ?case by (simp add: stmt_sat_def)
next
  case (Cons f fs)
  have f: "stmt_sat P f" and fs: "stmt_sat P (run_stmts fs)"
    using Cons by simp_all
  show ?case
    unfolding stmt_sat_def
  proof (intro allI impI)
    fix v es out v'
    assume run: "run_stmts (f # fs) v = ((es, out), v')"
    obtain es1 out1 v1 where fv: "f v = ((es1, out1), v1)"
      by (metis prod.collapse)
    have 1: "each_with_rest (\<lambda>e r. P e r out1) es1 \<and> begins es1 out1"
      using f fv by (rule stmt_satD)
    show "each_with_rest (\<lambda>e r. P e r out) es \<and> begins es out"
    proof (cases out1)
      case (Some x)
      then show ?thesis using run fv 1 by simp
    next
      case None
      obtain es2 out2 v2 where rest: "run_stmts fs v1 = ((es2, out2), v2)"
        by (metis prod.collapse)
      have 2: "each_with_rest (\<lambda>e r. P e r out2) es2 \<and> begins es2 out2"
        using fs rest by (rule stmt_satD)
      have "es = es1 @ es2" "out = out2"
        using run fv rest None by simp_all
      then show ?thesis
        using seq_sat [OF ext _ 2, of es1] 1 None by simp
    qed
  qed
qed

lemma connector_loop_sat:
  assumes ext: "extends P"
  shows "(\<And>j. j < num_connectors caps \<Longrightarrow> stmt_sat P (connector_body L typec caps j)) \<Longrightarrow>
         connector_loop L typec caps i v = ((es, out), v') \<Longrightarrow>
         each_with_rest (\<lambda>e r. P e r out) es \<and> begins es out"
proof (induction L typec caps i v arbitrary: es out v' rule: connector_loop.induct)
  case (1 L typec caps i v)
  note run = "1.prems"(2)
  show ?case
  proof (cases "i < num_connectors caps")
    case False
    then show ?thesis using run by (simp add: connector_loop.simps)
  next
    case True
    obtain es1 out1 v1 where b: "connector_body L typec caps i v = ((es1, out1), v1)"
      by (metis prod.collapse)
    have s1: "each_with_rest (\<lambda>e r. P e r out1) es1 \<and> begins es1 out1"
      using "1.prems"(1) [OF True] b by (rule stmt_satD)
    show ?thesis
    proof (cases out1)
      case (Some x)
      then show ?thesis using run True b s1 by (simp add: connector_loop.simps)
    next
      case None
      obtain es2 out2 v2 where rest: "connector_loop L typec caps (i + 1) v1 = ((es2, out2), v2)"
        by (metis prod.collapse)
      have s2: "each_with_rest (\<lambda>e r. P e r out2) es2 \<and> begins es2 out2"
        using "1.IH" [OF True b [symmetric] refl None "1.prems"(1) rest] .
      have "es = es1 @ es2" "out = out2"
        using run True b rest None by (simp_all add: connector_loop.simps)
      then show ?thesis
        using seq_sat [OF ext _ s2, of es1] s1 None by simp
    qed
  qed
qed

text \<open>The four ways the function ends.\<close>

lemma c_example_lstypec_cases:
  assumes run: "c_example_lstypec L backend s0 = (es, out, s')"
  obtains
    (no_session) ret s1 where
      "libtypec_rs_new L (backend_type L backend) s0 = ((ret, NULL), s1)"
      "es = [Call (New (backend_type L backend)) Unobserved ret (Handle NULL)]"
      "out = Returned ret"
  | (no_capabilities) ret typec s1 ret' caps s2 where
      "libtypec_rs_new L (backend_type L backend) s0 = ((ret, typec), s1)"
      "typec \<noteq> NULL"
      "libtypec_rs_get_capabilities L typec s1 = ((ret', caps), s2)"
      "ret' \<noteq> 0"
      "es = [Call (New (backend_type L backend)) Unobserved ret (Handle typec),
             Call (GetCapabilities typec) Unobserved ret' (Capability caps)]"
      "out = Returned ret'"
  | (stopped) ret typec s1 caps s2 les v where
      "libtypec_rs_new L (backend_type L backend) s0 = ((ret, typec), s1)"
      "typec \<noteq> NULL"
      "libtypec_rs_get_capabilities L typec s1 = ((0, caps), s2)"
      "connector_loop L typec caps 0 \<lparr>lib = s2, out_pdos = NULL, out_npdos = 0, out_mem_sz = 0\<rparr>
         = ((les, Some out), v)"
      "es = Call (New (backend_type L backend)) Unobserved ret (Handle typec) #
            Call (GetCapabilities typec) Unobserved 0 (Capability caps) # les"
  | (completed) ret typec s1 caps s2 les v where
      "libtypec_rs_new L (backend_type L backend) s0 = ((ret, typec), s1)"
      "typec \<noteq> NULL"
      "libtypec_rs_get_capabilities L typec s1 = ((0, caps), s2)"
      "connector_loop L typec caps 0 \<lparr>lib = s2, out_pdos = NULL, out_npdos = 0, out_mem_sz = 0\<rparr>
         = ((les, None), v)"
      "es = Call (New (backend_type L backend)) Unobserved ret (Handle typec) #
            Call (GetCapabilities typec) Unobserved 0 (Capability caps) # les @ [Destroy typec]"
      "out = Returned 0"
  using run
  unfolding c_example_lstypec_def Let_def
  by (auto split: prod.splits if_splits option.splits)

lemma begins_then_statement: "begins es out \<Longrightarrow> then_statement es"
  by (cases es) auto

lemma c_example_lstypec_sat:
  assumes run: "c_example_lstypec L backend s0 = (es, out, s')"
    and ext: "extends P"
    and body: "\<And>typec caps i. stmt_sat P (connector_body L typec caps i)"
    and outer: "\<And>e r out. outer e \<Longrightarrow> then_statement r \<Longrightarrow> P e r out"
  shows "each_with_rest (\<lambda>e r. P e r (Some out)) es"
  using run
proof (cases rule: c_example_lstypec_cases)
  case (no_session ret s1)
  then show ?thesis by (simp add: outer)
next
  case (no_capabilities ret typec s1 ret' caps s2)
  then show ?thesis by (simp add: outer)
next
  case (stopped ret typec s1 caps s2 les v)
  have 1: "each_with_rest (\<lambda>e r. P e r (Some out)) les \<and> begins les (Some out)"
    using connector_loop_sat [OF ext body stopped(4)] by simp
  then have "then_statement les"
    by (blast intro: begins_then_statement)
  then show ?thesis using stopped 1 by (simp add: outer)
next
  case (completed ret typec s1 caps s2 les v)
  have 1: "each_with_rest (\<lambda>e r. P e r None) les \<and> begins les None"
    using connector_loop_sat [OF ext body completed(4)] by simp
  have 2: "each_with_rest (\<lambda>e r. P e r (Some out)) [Destroy typec] \<and>
           begins [Destroy typec] (Some out)"
    by (simp add: outer)
  note 3 = seq_sat [OF ext 1 2]
  then have "then_statement (les @ [Destroy typec])"
    by (blast intro: begins_then_statement)
  then show ?thesis
    using 3 completed by (simp add: outer)
qed

lemma c_example_lstypec_first:
  assumes "c_example_lstypec L backend s0 = (es, out, s')"
  shows "\<exists>e rest. es = e # rest \<and> starts_statement e"
  using assms by (cases rule: c_example_lstypec_cases) auto

subsection \<open>Fatal statuses\<close>

lemma extends_returned: "extends returned"
  unfolding extends_def
proof (intro allI impI)
  fix e r es out
  assume "returned e r None" "begins es out"
  then show "returned e (r @ es) out"
    by (cases e) auto
qed

lemma returned_stmts:
  "stmt_sat returned (conn_capabilities L typec i)"
  "stmt_sat returned (pdos L typec i partner ty pdv)"
  "stmt_sat returned reset_pdos"
  "stmt_sat returned (cable_properties L typec i)"
  "stmt_sat returned (alternate_modes L typec rcp i)"
  "stmt_sat returned (pd_message_sop_prime L typec i)"
  "stmt_sat returned (pd_message_sop L typec i)"
  by (auto simp: stmt_sat_def stmt_defs fatal_def Let_def split: prod.splits if_splits)

lemma returned_body: "stmt_sat returned (connector_body L typec caps i)"
  unfolding connector_body_def
  by (rule run_stmts_sat [OF extends_returned]) (simp add: returned_stmts)

lemma fatal_returns:
  assumes "c_example_lstypec L backend s0 = (es, out, s')"
    and "es = pre @ Call q inp ret outp # post"
    and "fatal q ret"
  shows "post = [] \<and> out = Returned ret"
proof -
  have "each_with_rest (\<lambda>e r. returned e r (Some out)) es"
    using assms(1) extends_returned returned_body
    by (rule c_example_lstypec_sat) (auto elim: outer.elims simp: fatal_def)
  from each_with_rest_split [OF this assms(2)] assms(3) show ?thesis
    by simp
qed


subsection \<open>Unsupported features\<close>

lemma extends_skipped: "extends skipped"
  unfolding extends_def
proof (intro allI impI)
  fix e r es out
  assume "skipped e r None" "begins es out"
  then show "skipped e (r @ es) out"
    by (cases e) (auto intro: begins_append)
qed

lemma skipped_stmts:
  "stmt_sat skipped (conn_capabilities L typec i)"
  "stmt_sat skipped (pdos L typec i partner ty pdv)"
  "stmt_sat skipped reset_pdos"
  "stmt_sat skipped (cable_properties L typec i)"
  "stmt_sat skipped (alternate_modes L typec rcp i)"
  "stmt_sat skipped (pd_message_sop_prime L typec i)"
  "stmt_sat skipped (pd_message_sop L typec i)"
  by (auto simp: stmt_sat_def stmt_defs Let_def split: prod.splits if_splits)

lemma skipped_body: "stmt_sat skipped (connector_body L typec caps i)"
  unfolding connector_body_def
  by (rule run_stmts_sat [OF extends_skipped]) (simp add: skipped_stmts)

lemma unsupported_skipped:
  assumes "c_example_lstypec L backend s0 = (es, out, s')"
    and "es = pre @ Call q inp (- ENOTSUP) outp # post"
    and "connector_of q \<noteq> None" "\<not> is_conn_capabilities q"
  shows "\<exists>e post'. post = e # post' \<and> starts_statement e"
proof -
  have "each_with_rest (\<lambda>e r. skipped e r (Some out)) es"
    using assms(1) extends_skipped skipped_body
    by (rule c_example_lstypec_sat) (auto elim: outer.elims)
  from each_with_rest_split [OF this assms(2)] assms(3,4) show ?thesis
    by (cases post) auto
qed

subsection \<open>Connector indices\<close>

lemma each_with_rest_in_set: "each_with_rest P es \<Longrightarrow> e \<in> set es \<Longrightarrow> \<exists>post. P e post"
  by (induction es) auto

lemma each_with_rest_last: "each_with_rest P es \<Longrightarrow> es \<noteq> [] \<Longrightarrow> P (last es) []"
  by (induction es) auto

lemma extends_in_range: "extends (in_range n)"
  unfolding extends_def
proof (intro allI impI)
  fix e r es out
  assume "in_range n e r None"
  then show "in_range n e (r @ es) out"
    by (cases e) auto
qed

lemma in_range_stmts:
  "i < n \<Longrightarrow> stmt_sat (in_range n) (conn_capabilities L typec i)"
  "i < n \<Longrightarrow> stmt_sat (in_range n) (pdos L typec i partner ty pdv)"
  "stmt_sat (in_range n) reset_pdos"
  "i < n \<Longrightarrow> stmt_sat (in_range n) (cable_properties L typec i)"
  "i < n \<Longrightarrow> stmt_sat (in_range n) (alternate_modes L typec rcp i)"
  "i < n \<Longrightarrow> stmt_sat (in_range n) (pd_message_sop_prime L typec i)"
  "i < n \<Longrightarrow> stmt_sat (in_range n) (pd_message_sop L typec i)"
  by (auto simp: stmt_sat_def stmt_defs Let_def split: prod.splits if_splits)

lemma in_range_body:
  "i < num_connectors caps \<Longrightarrow>
   stmt_sat (in_range (num_connectors caps)) (connector_body L typec caps i)"
  unfolding connector_body_def
  by (rule run_stmts_sat [OF extends_in_range]) (simp add: in_range_stmts)

lemma connector_loop_in_range:
  assumes "connector_loop L typec caps i v = ((es, out), v')"
    and "Call q inp ret outp \<in> set es" "connector_of q = Some k"
  shows "k < num_connectors caps"
proof -
  have "each_with_rest (\<lambda>e r. in_range (num_connectors caps) e r out) es"
    using connector_loop_sat [OF extends_in_range in_range_body assms(1)] by simp
  from each_with_rest_in_set [OF this assms(2)] assms(3) show ?thesis
    by auto
qed

subsection \<open>Buffers and their release\<close>

lemma next_is_append: "next_is r x \<Longrightarrow> next_is (r @ es) x"
  by (cases r) auto

lemma next_is_Cons: "next_is r x \<Longrightarrow> \<exists>r'. r = x # r'"
  by (cases r) auto

lemma extends_released: "extends released"
  unfolding extends_def
proof (intro allI impI)
  fix e r es out
  assume "released e r None" "begins es out"
  then show "released e (r @ es) out"
    by (cases "(e, r, None :: outcome option)" rule: released.cases)
       (auto intro: next_is_append)
qed

lemma released_outer: "outer e \<Longrightarrow> released e r out"
  by (cases "(e, r, out)" rule: released.cases) (auto elim!: outer.elims(2))

lemma released_stmts:
  "stmt_sat released (conn_capabilities L typec i)"
  "stmt_sat released (pdos L typec i partner ty pdv)"
  "stmt_sat released reset_pdos"
  "stmt_sat released (cable_properties L typec i)"
  "stmt_sat released (alternate_modes L typec rcp i)"
  "stmt_sat released (pd_message_sop_prime L typec i)"
  "stmt_sat released (pd_message_sop L typec i)"
  by (auto simp: stmt_sat_def stmt_defs Let_def split: prod.splits if_splits)

lemma released_body: "stmt_sat released (connector_body L typec caps i)"
  unfolding connector_body_def
  by (rule run_stmts_sat [OF extends_released]) (simp add: released_stmts)

lemma released_run:
  assumes "c_example_lstypec L backend s0 = (es, out, s')"
    and "es = pre @ e # post"
  shows "released e post (Some out)"
proof -
  have "each_with_rest (\<lambda>e r. released e r (Some out)) es"
    using assms(1) extends_released released_body
    by (rule c_example_lstypec_sat) (simp add: released_outer)
  from each_with_rest_split [OF this assms(2)] show ?thesis .
qed

subsection \<open>The session handle\<close>

lemma extends_session_kept: "extends session_kept"
  unfolding extends_def
proof (intro allI impI)
  fix e r es out
  assume "session_kept e r None" "begins es out"
  then show "session_kept e (r @ es) out"
    by (cases e; cases es) auto
qed

lemma session_kept_stmts:
  "stmt_sat session_kept (conn_capabilities L typec i)"
  "stmt_sat session_kept (pdos L typec i partner ty pdv)"
  "stmt_sat session_kept reset_pdos"
  "stmt_sat session_kept (cable_properties L typec i)"
  "stmt_sat session_kept (alternate_modes L typec rcp i)"
  "stmt_sat session_kept (pd_message_sop_prime L typec i)"
  "stmt_sat session_kept (pd_message_sop L typec i)"
  by (auto simp: stmt_sat_def stmt_defs Let_def split: prod.splits if_splits)

lemma session_kept_body: "stmt_sat session_kept (connector_body L typec caps i)"
  unfolding connector_body_def
  by (rule run_stmts_sat [OF extends_session_kept]) (simp add: session_kept_stmts)

lemma connector_loop_session_kept:
  assumes "connector_loop L typec caps i v = ((es, out), v')"
  shows "Destroy t \<notin> set es" and "out \<noteq> Some (Returned 0)"
proof -
  have sat: "each_with_rest (\<lambda>e r. session_kept e r out) es" and b: "begins es out"
    using connector_loop_sat [OF extends_session_kept session_kept_body assms] by simp_all
  show "Destroy t \<notin> set es"
    using each_with_rest_in_set [OF sat, of "Destroy t"] by auto
  show "out \<noteq> Some (Returned 0)"
  proof (cases es)
    case Nil
    then show ?thesis using b by simp
  next
    case (Cons e es')
    then have "session_kept (last es) [] out"
      using each_with_rest_last [OF sat] by simp
    then show ?thesis
      by (cases "last es") auto
  qed
qed

subsection \<open>Destroy calls and the queries they follow\<close>

lemma extends_paired: "extends paired"
  unfolding extends_def
proof (intro allI impI)
  fix e r es out
  assume "paired e r None" "begins es out"
  then show "paired e (r @ es) out"
    by (cases r; cases es) auto
qed

lemma paired_stmts:
  "stmt_sat paired (conn_capabilities L typec i)"
  "stmt_sat paired (pdos L typec i partner ty pdv)"
  "stmt_sat paired reset_pdos"
  "stmt_sat paired (cable_properties L typec i)"
  "stmt_sat paired (alternate_modes L typec rcp i)"
  "stmt_sat paired (pd_message_sop_prime L typec i)"
  "stmt_sat paired (pd_message_sop L typec i)"
  by (auto simp: stmt_sat_def stmt_defs Let_def split: prod.splits if_splits)

lemma paired_body: "stmt_sat paired (connector_body L typec caps i)"
  unfolding connector_body_def
  by (rule run_stmts_sat [OF extends_paired]) (simp add: paired_stmts)

lemma paired_outer: "then_statement r \<Longrightarrow> paired e r out"
  by (cases r) auto

text \<open>A destroy call other than the final one comes right after the query it releases.\<close>

lemma destroy_directly_after_query:
  assumes run: "c_example_lstypec L backend s0 = (es, out, s')"
    and split: "es = pre @ d # post"
    and d: "\<not> starts_statement d"
  shows "\<exists>pre' e. pre = pre' @ [e] \<and> releases d e"
proof -
  have all: "each_with_rest (\<lambda>e r. paired e r (Some out)) es"
    using run extends_paired paired_body
    by (rule c_example_lstypec_sat) (simp add: paired_outer)
  have "pre \<noteq> []"
    using c_example_lstypec_first [OF run] split d by (cases pre) auto
  then have pre: "pre = butlast pre @ [last pre]"
    by simp
  then have "es = butlast pre @ last pre # d # post"
    using split by (metis append.assoc append_Cons append_Nil)
  from each_with_rest_split [OF all this] d have "releases d (last pre)"
    by simp
  with pre show ?thesis
    by blast
qed

lemma later_destroy_after_own_query:
  assumes run: "c_example_lstypec L backend s0 = (es, out, s')"
    and split: "es = pre @ e0 # post"
    and later: "post = mid @ d # rest"
    and d: "\<not> starts_statement d" "\<not> releases d e0"
  shows "\<exists>mid' e. mid = mid' @ [e] \<and> releases d e"
proof -
  have "es = (pre @ e0 # mid) @ d # rest"
    using split later by simp
  from destroy_directly_after_query [OF run this d(1)]
  obtain pre' e where e: "pre @ e0 # mid = pre' @ [e]" "releases d e"
    by blast
  show ?thesis
  proof (cases mid rule: rev_cases)
    case Nil
    then show ?thesis using e d(2) by simp
  next
    case (snoc mid' x)
    then have "x = e"
      using e(1) by simp
    then show ?thesis using snoc e(2) by blast
  qed
qed


lemma releases_DestroyPdMessageD:
  "releases (DestroyPdMessage m) e \<Longrightarrow>
   \<exists>t i ty inp. e = Call (GetPdMessage t i PdMessageRecipient_SopPrime ty) inp 0 (Message m)"
  by (cases "(DestroyPdMessage m, e)" rule: releases.cases) auto

subsection \<open>The PDO query of the specification\<close>

lemma status_code_neq_0 [simp]: "status_code e \<noteq> 0"
  by (cases e) (simp_all add: status_code_def)











subsection \<open>The sequence of queries\<close>

lemma unat_size_t_inc:
  fixes i n :: size_t
  assumes "i < n"
  shows "unat (i + 1) = Suc (unat i)"
proof -
  have "unat i < unat n"
    using assms by (simp add: word_less_nat_alt)
  moreover have "unat n < 2 ^ 64"
    using unsigned_less [of n] by simp
  ultimately have "unat i + 1 < 2 ^ 64"
    by simp
  then show ?thesis
    by (simp add: unat_word_ariths)
qed

lemma map_filter_append:
  "List.map_filter f (xs @ ys) = List.map_filter f xs @ List.map_filter f ys"
  by (simp add: List.map_filter_def)

lemma queries_simps [simp]:
  "queries [] = []"
  "queries (Call q a ret b # es) = q # queries es"
  "queries (DestroyPdos p n sz # es) = queries es"
  "queries (DestroyAlternateModes p n sz # es) = queries es"
  "queries (DestroyPdMessage m # es) = queries es"
  "queries (Destroy t # es) = queries es"
  "queries (es @ es') = queries es @ queries es'"
  by (simp_all add: queries_def List.map_filter_simps map_filter_append)

lemma issues_stmts:
  "issues (conn_capabilities L typec i) [GetConnCapabilities typec i]"
  "issues (pdos L typec i partner ty pdv)
     [GetPdos typec i partner 0 0 ty
        UcsiPdoSourceCapabilitiesType_CurrentSupportedSourceCapabilities pdv]"
  "issues reset_pdos []"
  "issues (cable_properties L typec i) [GetCableProperties typec i]"
  "issues (alternate_modes L typec rcp i) [GetAlternateModes typec rcp i]"
  "issues (pd_message_sop_prime L typec i)
     [GetPdMessage typec i PdMessageRecipient_SopPrime PdMessageResponseType_DiscoverIdentity]"
  "issues (pd_message_sop L typec i)
     [GetPdMessage typec i PdMessageRecipient_Sop PdMessageResponseType_DiscoverIdentity]"
  by (auto simp: issues_def stmt_defs Let_def split: prod.splits if_splits)

lemma run_stmts_queries:
  "list_all2 issues fs qss \<Longrightarrow> run_stmts fs v = ((es, out), v') \<Longrightarrow>
   prefix (queries es) (concat qss) \<and> (out = None \<longrightarrow> queries es = concat qss)"
proof (induction fs qss arbitrary: v es out v' rule: list_all2_induct)
  case Nil
  then show ?case by simp
next
  case (Cons f fs qs qss)
  obtain es1 out1 v1 where fv: "f v = ((es1, out1), v1)"
    by (metis prod.collapse)
  have q1: "queries es1 = qs"
    using Cons.hyps(1) fv by (auto simp: issues_def dest: spec [of _ v])
  show ?case
  proof (cases out1)
    case (Some x)
    then show ?thesis using Cons.prems fv q1 by auto
  next
    case None
    obtain es2 out2 v2 where rest: "run_stmts fs v1 = ((es2, out2), v2)"
      by (metis prod.collapse)
    have "es = es1 @ es2" "out = out2"
      using Cons.prems fv rest None by simp_all
    then show ?thesis
      using Cons.IH [OF rest] q1 by simp
  qed
qed

lemma connector_body_queries:
  assumes "connector_body L typec caps i v = ((es, out), v')"
  shows "prefix (queries es) (connector_queries typec (pd_version caps) i) \<and>
         (out = None \<longrightarrow> queries es = connector_queries typec (pd_version caps) i)"
proof -
  let ?pdv = "pd_version caps"
  let ?src = "UcsiPdoSourceCapabilitiesType_CurrentSupportedSourceCapabilities"
  let ?fs = "[conn_capabilities L typec i,
        pdos L typec i False UcsiPdoType_Source ?pdv,
        pdos L typec i False UcsiPdoType_Sink ?pdv,
        cable_properties L typec i,
        alternate_modes L typec UcsiGetAlternateModesRecipient_Connector i,
        alternate_modes L typec UcsiGetAlternateModesRecipient_SopPrime i,
        pd_message_sop_prime L typec i,
        alternate_modes L typec UcsiGetAlternateModesRecipient_Sop i,
        pd_message_sop L typec i,
        reset_pdos,
        pdos L typec i True UcsiPdoType_Source ?pdv,
        reset_pdos,
        pdos L typec i True UcsiPdoType_Sink ?pdv]"
  let ?qss = "[[GetConnCapabilities typec i],
        [GetPdos typec i False 0 0 UcsiPdoType_Source ?src ?pdv],
        [GetPdos typec i False 0 0 UcsiPdoType_Sink ?src ?pdv],
        [GetCableProperties typec i],
        [GetAlternateModes typec UcsiGetAlternateModesRecipient_Connector i],
        [GetAlternateModes typec UcsiGetAlternateModesRecipient_SopPrime i],
        [GetPdMessage typec i PdMessageRecipient_SopPrime PdMessageResponseType_DiscoverIdentity],
        [GetAlternateModes typec UcsiGetAlternateModesRecipient_Sop i],
        [GetPdMessage typec i PdMessageRecipient_Sop PdMessageResponseType_DiscoverIdentity],
        [],
        [GetPdos typec i True 0 0 UcsiPdoType_Source ?src ?pdv],
        [],
        [GetPdos typec i True 0 0 UcsiPdoType_Sink ?src ?pdv]]"
  have all: "list_all2 issues ?fs ?qss"
    by (simp add: issues_stmts)
  have run: "run_stmts ?fs v = ((es, out), v')"
    using assms by (simp add: connector_body_def)
  have "concat ?qss = connector_queries typec ?pdv i"
    by (simp add: connector_queries_def)
  with run_stmts_queries [OF all run] show ?thesis
    by simp
qed

lemma queries_from_step:
  assumes "i < num_connectors caps"
  shows "queries_from typec caps i =
         connector_queries typec (pd_version caps) i @ queries_from typec caps (i + 1)"
proof -
  have "unat i < unat (num_connectors caps)"
    using assms by (simp add: word_less_nat_alt)
  then have "[unat i..<unat (num_connectors caps)] =
             unat i # [unat (i + 1)..<unat (num_connectors caps)]"
    by (simp add: upt_conv_Cons unat_size_t_inc [OF assms])
  then show ?thesis
    by (simp add: queries_from_def)
qed

lemma queries_from_done: "\<not> i < num_connectors caps \<Longrightarrow> queries_from typec caps i = []"
  by (simp add: queries_from_def word_less_nat_alt)

lemma connector_loop_queries:
  "connector_loop L typec caps i v = ((es, out), v') \<Longrightarrow>
   prefix (queries es) (queries_from typec caps i) \<and>
   (out = None \<longrightarrow> queries es = queries_from typec caps i)"
proof (induction L typec caps i v arbitrary: es out v' rule: connector_loop.induct)
  case (1 L typec caps i v)
  note run = "1.prems"
  show ?case
  proof (cases "i < num_connectors caps")
    case False
    then show ?thesis using run by (simp add: connector_loop.simps queries_from_done)
  next
    case True
    obtain es1 out1 v1 where b: "connector_body L typec caps i v = ((es1, out1), v1)"
      by (metis prod.collapse)
    note q1 = connector_body_queries [OF b]
    show ?thesis
    proof (cases out1)
      case (Some x)
      then have "es = es1" "out = out1"
        using run True b by (simp_all add: connector_loop.simps)
      then show ?thesis
        using q1 Some by (simp add: queries_from_step [OF True])
    next
      case None
      obtain es2 out2 v2 where rest: "connector_loop L typec caps (i + 1) v1 = ((es2, out2), v2)"
        by (metis prod.collapse)
      note q2 = "1.IH" [OF True b [symmetric] refl None rest]
      have "es = es1 @ es2" "out = out2"
        using run True b rest None by (simp_all add: connector_loop.simps)
      then show ?thesis
        using q1 q2 None by (simp add: queries_from_step [OF True])
    qed
  qed
qed

text \<open>What the fixed sequence consists of.\<close>

lemma in_connector_queries:
  "q \<in> set (connector_queries typec pdv i) \<Longrightarrow>
   connector_of q = Some i \<and> \<not> is_get_capabilities q \<and>
   (\<forall>t k partner off num ty sc v. q = GetPdos t k partner off num ty sc v \<longrightarrow> v = pdv)"
  by (auto simp: connector_queries_def)

lemma in_queries_from:
  assumes "q \<in> set (queries_from typec caps i)"
  shows "\<not> is_get_capabilities q \<and>
         (\<forall>t k partner off num ty sc v.
            q = GetPdos t k partner off num ty sc v \<longrightarrow> v = pd_version caps)"
proof -
  obtain k where "q \<in> set (connector_queries typec (pd_version caps) (word_of_nat k))"
    using assms by (auto simp: queries_from_def)
  from in_connector_queries [OF this] show ?thesis
    by simp
qed

lemma conn_capabilities_indices:
  "List.map_filter conn_capabilities_index
     (concat (map (\<lambda>k. connector_queries typec pdv (word_of_nat k)) ks)) = map word_of_nat ks"
  by (induction ks) (simp_all add: map_filter_append List.map_filter_simps connector_queries_def)

lemma map_filter_prefix: "prefix xs ys \<Longrightarrow> prefix (List.map_filter f xs) (List.map_filter f ys)"
  by (auto simp: prefix_def map_filter_append)

lemma no_get_capabilities_in_loop:
  assumes "prefix qs (queries_from typec caps i)"
  shows "filter is_get_capabilities qs = []"
proof -
  have "\<not> is_get_capabilities q" if "q \<in> set qs" for q
    using that set_mono_prefix [OF assms] in_queries_from [of q typec caps i] by auto
  then show ?thesis
    by (simp add: filter_empty_conv)
qed

lemma c_example_lstypec_queries:
  assumes run: "c_example_lstypec L backend s0 = (es, out, s')"
    and new: "libtypec_rs_new L (backend_type L backend) s0 = ((ret, typec), s1)"
    and caps: "libtypec_rs_get_capabilities L typec s1 = ((ret', caps), s2)"
  shows "prefix (queries es) (all_queries (backend_type L backend) typec caps) \<and>
         (Destroy typec \<in> set es \<longrightarrow>
            queries es = all_queries (backend_type L backend) typec caps) \<and>
         filter is_get_capabilities (queries es) =
           (if typec = NULL then [] else [GetCapabilities typec])"
  using run
proof (cases rule: c_example_lstypec_cases)
  case (no_session ret0 s1')
  then show ?thesis using new by (auto simp: all_queries_def)
next
  case (no_capabilities ret0 typec' s1' ret'' caps' s2')
  then show ?thesis using new caps by (auto simp: all_queries_def)
next
  case (stopped ret0 typec' s1' caps' s2' les v)
  have same: "typec' = typec" "caps' = caps"
    using stopped(1,3) new caps by auto
  have p: "prefix (queries les) (queries_from typec caps 0)"
    using connector_loop_queries [OF stopped(4)] same by simp
  have "Destroy typec \<notin> set les"
    using connector_loop_session_kept(1) [OF stopped(4)] .
  then show ?thesis
    using stopped(2,5) same p no_get_capabilities_in_loop [OF p]
    by (auto simp: all_queries_def)
next
  case (completed ret0 typec' s1' caps' s2' les v)
  have same: "typec' = typec" "caps' = caps"
    using completed(1,3) new caps by auto
  have q: "queries les = queries_from typec caps 0"
    using connector_loop_queries [OF completed(4)] same by simp
  have "prefix (queries les) (queries_from typec caps 0)"
    using q by simp
  from no_get_capabilities_in_loop [OF this] show ?thesis
    using completed(2,5) same q by (auto simp: all_queries_def)
qed

lemma conn_capabilities_indices_all:
  "List.map_filter conn_capabilities_index (all_queries b typec caps) =
   map word_of_nat [0..<unat (num_connectors caps)]"
  by (simp add: all_queries_def queries_from_def List.map_filter_simps conn_capabilities_indices)

lemma get_pdos_in_all_queries:
  assumes "GetPdos t k partner off num ty sc v \<in> set (all_queries b typec caps)"
  shows "v = pd_version caps"
proof -
  have "GetPdos t k partner off num ty sc v \<in> set (queries_from typec caps 0)"
    using assms by (simp add: all_queries_def)
  from in_queries_from [OF this] show ?thesis
    by simp
qed

subsection \<open>The library's state along a run\<close>

lemma replay_append: "replay L (xs @ ys) s = replay L ys (replay L xs s)"
  by (induction xs arbitrary: s) auto

lemma faithful_append:
  "faithful L (xs @ ys) s = (faithful L xs s \<and> faithful L ys (replay L xs s))"
  by (induction xs arbitrary: s) auto

lemma stmt_performsD:
  "stmt_performs L f \<Longrightarrow> f v = ((es, out), v') \<Longrightarrow>
   faithful L es (lib v) \<and> lib v' = replay L es (lib v)"
  unfolding stmt_performs_def by blast

lemma performs_stmts:
  "stmt_performs L (conn_capabilities L typec i)"
  "stmt_performs L (pdos L typec i partner ty pdv)"
  "stmt_performs L reset_pdos"
  "stmt_performs L (cable_properties L typec i)"
  "stmt_performs L (alternate_modes L typec rcp i)"
  "stmt_performs L (pd_message_sop_prime L typec i)"
  "stmt_performs L (pd_message_sop L typec i)"
  by (auto simp: stmt_performs_def stmt_defs Let_def split: prod.splits if_splits)

lemma run_stmts_performs:
  "\<forall>f\<in>set fs. stmt_performs L f \<Longrightarrow> stmt_performs L (run_stmts fs)"
proof (induction fs)
  case Nil
  show ?case by (simp add: stmt_performs_def)
next
  case (Cons f fs)
  have f: "stmt_performs L f" and fs: "stmt_performs L (run_stmts fs)"
    using Cons by simp_all
  show ?case
    unfolding stmt_performs_def
  proof (intro allI impI)
    fix v es out v'
    assume run: "run_stmts (f # fs) v = ((es, out), v')"
    obtain es1 out1 v1 where fv: "f v = ((es1, out1), v1)"
      by (metis prod.collapse)
    note 1 = stmt_performsD [OF f fv]
    show "faithful L es (lib v) \<and> lib v' = replay L es (lib v)"
    proof (cases out1)
      case (Some x)
      then show ?thesis using run fv 1 by simp
    next
      case None
      obtain es2 out2 v2 where rest: "run_stmts fs v1 = ((es2, out2), v2)"
        by (metis prod.collapse)
      note 2 = stmt_performsD [OF fs rest]
      have "es = es1 @ es2" "v' = v2"
        using run fv rest None by simp_all
      then show ?thesis
        using 1 2 by (simp add: replay_append faithful_append)
    qed
  qed
qed

lemma connector_body_performs: "stmt_performs L (connector_body L typec caps i)"
  unfolding connector_body_def
  by (rule run_stmts_performs) (simp add: performs_stmts)

lemma connector_loop_performs:
  "connector_loop L typec caps i v = ((es, out), v') \<Longrightarrow>
   faithful L es (lib v) \<and> lib v' = replay L es (lib v)"
proof (induction L typec caps i v arbitrary: es out v' rule: connector_loop.induct)
  case (1 L typec caps i v)
  note run = "1.prems"
  show ?case
  proof (cases "i < num_connectors caps")
    case False
    then show ?thesis using run by (simp add: connector_loop.simps)
  next
    case True
    obtain es1 out1 v1 where b: "connector_body L typec caps i v = ((es1, out1), v1)"
      by (metis prod.collapse)
    note s1 = stmt_performsD [OF connector_body_performs b]
    show ?thesis
    proof (cases out1)
      case (Some x)
      then show ?thesis using run True b s1 by (simp add: connector_loop.simps)
    next
      case None
      obtain es2 out2 v2 where rest: "connector_loop L typec caps (i + 1) v1 = ((es2, out2), v2)"
        by (metis prod.collapse)
      note s2 = "1.IH" [OF True b [symmetric] refl None rest]
      have "es = es1 @ es2" "v' = v2"
        using run True b rest None by (simp_all add: connector_loop.simps)
      then show ?thesis
        using s1 s2 by (simp add: replay_append faithful_append)
    qed
  qed
qed

text \<open>
  The events of a run record what the library yielded, and the library's state at the end
  is the one the calls of the events lead to, the destroy calls included.
\<close>

lemma c_example_lstypec_performs:
  assumes "c_example_lstypec L backend s0 = (es, out, s')"
  shows "faithful L es s0 \<and> s' = replay L es s0"
  using assms unfolding c_example_lstypec_def Let_def
  by (auto split: prod.splits if_splits option.splits
           simp: replay_append faithful_append dest!: connector_loop_performs)

subsection \<open>The final destroy call\<close>

lemma last_of_snoc_split:
  assumes "xs @ [d] = pre @ c # d' # post" and "d' \<notin> set xs"
  shows "post = [] \<and> d' = d"
proof (cases post rule: rev_cases)
  case Nil
  then have "xs @ [d] = (pre @ [c]) @ [d']"
    using assms(1) by simp
  then have "d = d'"
    by (simp only: append1_eq_conv)
  then show ?thesis using Nil by simp
next
  case (snoc ys y)
  then have "xs @ [d] = (pre @ c # d' # ys) @ [y]"
    using assms(1) by simp
  then have "xs = pre @ c # d' # ys"
    by (simp only: append1_eq_conv)
  then show ?thesis using assms(2) by simp
qed

lemma destroy_only_last:
  assumes run: "c_example_lstypec L backend s0 = (es, out, s')"
    and new: "libtypec_rs_new L (backend_type L backend) s0 = ((ret, typec), s1)"
    and split: "es = pre @ c # Destroy t # post"
  shows "post = [] \<and> t = typec \<and> out = Returned 0"
proof -
  have mem: "Destroy t \<in> set es"
    using split by simp
  from run show ?thesis
  proof (cases rule: c_example_lstypec_cases)
    case (no_session ret0 s1')
    then show ?thesis using mem by simp
  next
    case (no_capabilities ret0 typec' s1' ret' caps s2)
    then show ?thesis using mem by simp
  next
    case (stopped ret0 typec' s1' caps s2 les v)
    have "Destroy t \<notin> set les"
      using connector_loop_session_kept(1) [OF stopped(4)] .
    then show ?thesis using stopped(5) mem by simp
  next
    case (completed ret0 typec' s1' caps s2 les v)
    let ?xs = "Call (New (backend_type L backend)) Unobserved ret0 (Handle typec') #
               Call (GetCapabilities typec') Unobserved 0 (Capability caps) # les"
    have notin: "Destroy t \<notin> set ?xs"
      using connector_loop_session_kept(1) [OF completed(4)] by simp
    have eq: "?xs @ [Destroy typec'] = pre @ c # Destroy t # post"
      using completed(5) split by simp
    have "post = [] \<and> Destroy t = Destroy typec'"
      using last_of_snoc_split [OF eq notin] .
    moreover have "typec' = typec"
      using completed(1) new by simp
    ultimately show ?thesis
      using completed(6) by simp
  qed
qed

subsection \<open>The locals before a PDO query of the partner\<close>








subsection \<open>Runs against the library for tests\<close>

lemmas run_defs = c_example_lstypec_def backend_type_def connector_loop.simps connector_body_def
  stmt_defs scripted_def NULL_def

lemma run_all_ok:
  "c_example_lstypec (scripted 1 1 all_ok) 0 0 = (all_ok_events, Returned 0, 7)"
  by (simp add: run_defs all_ok_def all_ok_events_def ENOTSUP_def)

lemma run_sparse:
  "\<not> sint ret < 0 \<Longrightarrow>
   c_example_lstypec (scripted 1 1 (sparse ret)) 0 0 = (sparse_events ret, Returned 0, 0)"
  by (simp add: run_defs sparse_def sparse_events_def ENOTSUP_def)

lemma run_no_session:
  "c_example_lstypec (scripted NULL 1 all_ok) 0 0 =
     ([Call (New 0) Unobserved 0 (Handle NULL)], Returned 0, 0)"
  by (simp add: run_defs all_ok_def)

lemma run_conn_capabilities_fails:
  "c_example_lstypec (scripted 1 1 (conn_capabilities_fails (- 5))) 0 0 =
     ([Call (New 0) Unobserved 0 (Handle 1),
       Call (GetCapabilities 1) Unobserved 0
         (Capability \<lparr>num_connectors = 1, pd_version = 0x0301\<rparr>),
       Call (GetConnCapabilities 1 0) Unobserved (- 5) Unobserved],
      Returned (- 5), 0)"
  by (simp add: run_defs conn_capabilities_fails_def)


lemma run_sparse_two:
  "c_example_lstypec (scripted 1 2 (sparse 0)) 0 0 = (sparse_two_events, Returned 0, 0)"
  by (simp add: run_defs sparse_def sparse_two_events_def sparse_two_head_def
        sparse_connector_events_def ENOTSUP_def)

section \<open>The claims\<close>

text \<open>
  C1, as amended. \<open>-ENOTSUP\<close> from \<open>libtypec_rs_get_pdos\<close>,
  \<open>libtypec_rs_get_cable_properties\<close>, \<open>libtypec_rs_get_alternate_modes\<close> or
  \<open>libtypec_rs_get_pd_message\<close> does not end the enumeration. The next event of the run is
  the next query of the fixed sequence \<open>all_queries\<close>: the next query of the same connector
  or, after the last query of a connector, the first query of the next connector. Only after
  the last query of the last connector is the next event the final \<open>libtypec_rs_destroy\<close>
  on the session handle, and the function returns 0. \<open>-ENOTSUP\<close> from
  \<open>libtypec_rs_get_conn_capabilities\<close> is negative, and the function returns it at once
  (line 45).
\<close>

theorem unsupported_does_not_abort:
  assumes "c_example_lstypec L backend s0 = (es, out, s')"
    and "libtypec_rs_new L (backend_type L backend) s0 = ((ret0, typec), s1)"
    and "libtypec_rs_get_capabilities L typec s1 = ((ret1, caps), s2)"
    and "es = pre @ Call q inp (- ENOTSUP) outp # post"
    and "connector_of q = Some i"
  shows "if is_conn_capabilities q then post = [] \<and> out = Returned (- ENOTSUP)
         else (\<exists>q' inp' ret' outp' post'.
                 post = Call q' inp' ret' outp' # post' \<and>
                 prefix (queries pre @ [q, q'])
                   (all_queries (backend_type L backend) typec caps)) \<or>
              (post = [Destroy typec] \<and> out = Returned 0 \<and>
               queries pre @ [q] = all_queries (backend_type L backend) typec caps)"
proof (cases "is_conn_capabilities q")
  case True
  then have "fatal q (- ENOTSUP)"
    using assms(5) by (simp add: fatal_def)
  from fatal_returns [OF assms(1,4) this] True show ?thesis
    by simp
next
  case False
  obtain e post' where post: "post = e # post'" and st: "starts_statement e"
    using unsupported_skipped [OF assms(1,4) _ False] assms(5) by auto
  note qs = c_example_lstypec_queries [OF assms(1,2,3)]
  show ?thesis
  proof (cases e)
    case (Call q' inp' ret' outp')
    have "queries es = (queries pre @ [q, q']) @ queries post'"
      using assms(4) post Call by simp
    then have "prefix (queries pre @ [q, q']) (queries es)"
      by (rule prefixI)
    moreover have "prefix (queries es) (all_queries (backend_type L backend) typec caps)"
      using qs by simp
    ultimately have "prefix (queries pre @ [q, q'])
                       (all_queries (backend_type L backend) typec caps)"
      by (rule prefix_order.trans)
    then show ?thesis
      using False post Call by simp
  next
    case (Destroy t)
    have split: "es = pre @ Call q inp (- ENOTSUP) outp # Destroy t # post'"
      using assms(4) post Destroy by simp
    from destroy_only_last [OF assms(1,2) this]
    have last: "post' = []" "t = typec" "out = Returned 0"
      by simp_all
    have "Destroy typec \<in> set es"
      using split last by simp
    then have "queries es = all_queries (backend_type L backend) typec caps"
      using qs by simp
    moreover have "queries es = queries pre @ [q]"
      using split last by simp
    ultimately show ?thesis
      using False post Destroy last by simp
  qed (use st in simp_all)
qed

theorem unsupported_does_not_abort_witness:
  "c_example_lstypec (scripted 1 2 (sparse 0)) 0 0 = (sparse_two_events, Returned 0, 0)
   \<and> libtypec_rs_new (scripted 1 2 (sparse 0)) (backend_type (scripted 1 2 (sparse 0)) 0) 0 =
       ((0, 1), 0)
   \<and> libtypec_rs_get_capabilities (scripted 1 2 (sparse 0)) 1 0 =
       ((0, \<lparr>num_connectors = 2, pd_version = 0x0301\<rparr>), 0)
   \<and> sparse_two_events =
       take 12 sparse_two_events @
       Call (GetPdos 1 0 True 0 0 UcsiPdoType_Sink
               UcsiPdoSourceCapabilitiesType_CurrentSupportedSourceCapabilities 0x0301)
         (Buffer 0 0 0) (- ENOTSUP) (Buffer 0 0 0) #
       Call (GetConnCapabilities 1 1) Unobserved 0 Unobserved #
       tl (sparse_connector_events 1) @ [Destroy 1]
   \<and> connector_of (GetPdos 1 0 True 0 0 UcsiPdoType_Sink
         UcsiPdoSourceCapabilitiesType_CurrentSupportedSourceCapabilities 0x0301) = Some 0
   \<and> prefix
        (queries (take 12 sparse_two_events) @
         [GetPdos 1 0 True 0 0 UcsiPdoType_Sink
            UcsiPdoSourceCapabilitiesType_CurrentSupportedSourceCapabilities 0x0301,
          GetConnCapabilities 1 1])
        (all_queries (backend_type (scripted 1 2 (sparse 0)) 0) 1
           \<lparr>num_connectors = 2, pd_version = 0x0301\<rparr>)"
proof -
  have new: "libtypec_rs_new (scripted 1 2 (sparse 0))
               (backend_type (scripted 1 2 (sparse 0)) 0) 0 = ((0, 1), 0)"
    by (simp add: scripted_def sparse_def)
  have caps: "libtypec_rs_get_capabilities (scripted 1 2 (sparse 0)) 1 0 =
       ((0, \<lparr>num_connectors = 2, pd_version = 0x0301\<rparr>), 0)"
    by (simp add: scripted_def sparse_def)
  have split: "sparse_two_events =
       take 12 sparse_two_events @
       Call (GetPdos 1 0 True 0 0 UcsiPdoType_Sink
               UcsiPdoSourceCapabilitiesType_CurrentSupportedSourceCapabilities 0x0301)
         (Buffer 0 0 0) (- ENOTSUP) (Buffer 0 0 0) #
       Call (GetConnCapabilities 1 1) Unobserved 0 Unobserved #
       tl (sparse_connector_events 1) @ [Destroy 1]"
    by (simp add: sparse_two_events_def sparse_two_head_def sparse_connector_events_def)
  have conn: "connector_of (GetPdos 1 0 True 0 0 UcsiPdoType_Sink
         UcsiPdoSourceCapabilitiesType_CurrentSupportedSourceCapabilities 0x0301) = Some 0"
    by simp
  have "prefix
        (queries (take 12 sparse_two_events) @
         [GetPdos 1 0 True 0 0 UcsiPdoType_Sink
            UcsiPdoSourceCapabilitiesType_CurrentSupportedSourceCapabilities 0x0301,
          GetConnCapabilities 1 1])
        (all_queries (backend_type (scripted 1 2 (sparse 0)) 0) 1
           \<lparr>num_connectors = 2, pd_version = 0x0301\<rparr>)"
    using unsupported_does_not_abort [OF run_sparse_two new caps split conn] by simp
  then show ?thesis
    using run_sparse_two new caps split conn by blast
qed

text \<open>
  C1 as stated fails for \<open>libtypec_rs_get_conn_capabilities\<close>: with two connectors, \<open>-ENOTSUP\<close>
  from the query of connector 0 ends the run; connector 1 is never queried.
\<close>

theorem unsupported_conn_capabilities_counterexample:
  "c_example_lstypec (scripted 1 2 (sparse (- ENOTSUP))) 0 0 =
     ([Call (New 0) Unobserved 0 (Handle 1),
       Call (GetCapabilities 1) Unobserved 0
         (Capability \<lparr>num_connectors = 2, pd_version = 0x0301\<rparr>),
       Call (GetConnCapabilities 1 0) Unobserved (- ENOTSUP) Unobserved],
      Returned (- ENOTSUP), 0)"
  by (simp add: run_defs sparse_def ENOTSUP_def)



text \<open>
  C3. Every per-connector query of a run comes after the query of the capabilities, which
  succeeded, and its connector index is at least 0 and below the \<open>num_connectors\<close> that
  query yielded.
\<close>

theorem connector_index_in_range:
  assumes "c_example_lstypec L backend s0 = (es, out, s')"
    and "Call q inp ret outp \<in> set es"
    and "connector_of q = Some i"
  shows "\<exists>new typec caps rest.
           es = new # Call (GetCapabilities typec) Unobserved 0 (Capability caps) # rest \<and>
           Call q inp ret outp \<in> set rest \<and> 0 \<le> i \<and> i < num_connectors caps"
  using assms(1)
proof (cases rule: c_example_lstypec_cases)
  case (no_session ret s1)
  then show ?thesis using assms(2,3) by auto
next
  case (no_capabilities ret typec s1 ret' caps s2)
  then show ?thesis using assms(2,3) by auto
next
  case (stopped ret0 typec s1 caps s2 les v)
  then have mem: "Call q inp ret outp \<in> set les"
    using assms(2,3) by auto
  have "i < num_connectors caps"
    using connector_loop_in_range [OF stopped(4) mem assms(3)] .
  then show ?thesis
    using stopped(5) mem by auto
next
  case (completed ret0 typec s1 caps s2 les v)
  then have mem: "Call q inp ret outp \<in> set les"
    using assms(2,3) by auto
  have "i < num_connectors caps"
    using connector_loop_in_range [OF completed(4) mem assms(3)] .
  then show ?thesis
    using completed(5) mem by auto
qed

theorem connector_index_in_range_witness:
  "c_example_lstypec (scripted 1 1 all_ok) 0 0 = (all_ok_events, Returned 0, 7)
   \<and> Call (GetCableProperties 1 0) Unobserved 0 Unobserved \<in> set all_ok_events
   \<and> connector_of (GetCableProperties 1 0) = Some 0
   \<and> (\<exists>new typec caps rest.
         all_ok_events = new # Call (GetCapabilities typec) Unobserved 0 (Capability caps) # rest \<and>
         Call (GetCableProperties 1 0) Unobserved 0 Unobserved \<in> set rest \<and>
         (0 :: size_t) \<le> 0 \<and> 0 < num_connectors caps)"
proof -
  have mem: "Call (GetCableProperties 1 0) Unobserved 0 Unobserved \<in> set all_ok_events"
    by (simp add: all_ok_events_def)
  have conn: "connector_of (GetCableProperties 1 0) = Some 0"
    by simp
  from connector_index_in_range [OF run_all_ok mem conn] run_all_ok mem conn
  show ?thesis by simp
qed

text \<open>
  C4, as amended. The queries of a run are an initial part of one fixed sequence, which
  the backend kind, the session handle and the capability result determine:
  \<open>libtypec_rs_new\<close>, \<open>libtypec_rs_get_capabilities\<close>, then for the connectors 0, 1, ... in
  increasing order the eleven queries of \<open>connector_queries\<close>, every PDO query with the
  \<open>pd_version\<close> of the capability result. The run issues the whole sequence when it reaches
  the final \<open>libtypec_rs_destroy\<close>, and stops short of it at a null handle or a fatal
  status. \<open>libtypec_rs_get_capabilities\<close> is called once when the handle is not null, and
  not at all otherwise.
\<close>

theorem queries_follow_fixed_sequence:
  assumes "c_example_lstypec L backend s0 = (es, out, s')"
    and "libtypec_rs_new L (backend_type L backend) s0 = ((ret, typec), s1)"
    and "libtypec_rs_get_capabilities L typec s1 = ((ret', caps), s2)"
  shows "prefix (queries es) (all_queries (backend_type L backend) typec caps) \<and>
         (Destroy typec \<in> set es \<longrightarrow>
            queries es = all_queries (backend_type L backend) typec caps) \<and>
         filter is_get_capabilities (queries es) =
           (if typec = NULL then [] else [GetCapabilities typec]) \<and>
         prefix (List.map_filter conn_capabilities_index (queries es))
           (map word_of_nat [0..<unat (num_connectors caps)]) \<and>
         (\<forall>t k partner off num ty sc v.
            GetPdos t k partner off num ty sc v \<in> set (queries es) \<longrightarrow> v = pd_version caps)"
proof -
  note main = c_example_lstypec_queries [OF assms]
  then have p: "prefix (queries es) (all_queries (backend_type L backend) typec caps)"
    by simp
  have "prefix (List.map_filter conn_capabilities_index (queries es))
          (map word_of_nat [0..<unat (num_connectors caps)])"
    using map_filter_prefix [OF p, of conn_capabilities_index]
    by (simp add: conn_capabilities_indices_all)
  moreover have "v = pd_version caps"
    if "GetPdos t k partner off num ty sc v \<in> set (queries es)" for t k partner off num ty sc v
    using that set_mono_prefix [OF p] get_pdos_in_all_queries by blast
  ultimately show ?thesis
    using main by blast
qed

theorem queries_follow_fixed_sequence_witness:
  "c_example_lstypec (scripted 1 1 all_ok) 0 0 = (all_ok_events, Returned 0, 7)
   \<and> libtypec_rs_new (scripted 1 1 all_ok) (backend_type (scripted 1 1 all_ok) 0) 0 =
       ((0, 1), 0)
   \<and> libtypec_rs_get_capabilities (scripted 1 1 all_ok) 1 0 =
       ((0, \<lparr>num_connectors = 1, pd_version = 0x0301\<rparr>), 0)
   \<and> Destroy 1 \<in> set all_ok_events
   \<and> queries all_ok_events =
       all_queries (backend_type (scripted 1 1 all_ok) 0) 1
         \<lparr>num_connectors = 1, pd_version = 0x0301\<rparr>"
proof -
  have new1: "libtypec_rs_new (scripted 1 1 all_ok) (backend_type (scripted 1 1 all_ok) 0) 0 =
       ((0, 1), 0)"
    by (simp add: scripted_def all_ok_def)
  have caps1: "libtypec_rs_get_capabilities (scripted 1 1 all_ok) 1 0 =
       ((0, \<lparr>num_connectors = 1, pd_version = 0x0301\<rparr>), 0)"
    by (simp add: scripted_def all_ok_def)
  have last: "Destroy 1 \<in> set all_ok_events"
    by (simp add: all_ok_events_def)
  from queries_follow_fixed_sequence [OF run_all_ok new1 caps1] last
  have "queries all_ok_events =
       all_queries (backend_type (scripted 1 1 all_ok) 0) 1
         \<lparr>num_connectors = 1, pd_version = 0x0301\<rparr>"
    by blast
  then show ?thesis
    using run_all_ok new1 caps1 last by simp
qed

text \<open>
  C4 as stated fails: two runs with the same capability result, one connector and PD
  version 3.1, issue different sequences of queries. In the first
  \<open>libtypec_rs_get_conn_capabilities\<close> yields \<open>-5\<close> and the run ends after three queries; in
  the second it yields 0, every optional feature is unsupported, and the run issues all
  thirteen.
\<close>

theorem query_sequence_depends_on_statuses_counterexample:
  "libtypec_rs_get_capabilities (scripted 1 1 (conn_capabilities_fails (- 5))) 1 0 =
     ((0, \<lparr>num_connectors = 1, pd_version = 0x0301\<rparr>), 0)
   \<and> libtypec_rs_get_capabilities (scripted 1 1 (sparse 0)) 1 0 =
     ((0, \<lparr>num_connectors = 1, pd_version = 0x0301\<rparr>), 0)
   \<and> queries (fst (c_example_lstypec (scripted 1 1 (conn_capabilities_fails (- 5))) 0 0)) =
     [New 0, GetCapabilities 1, GetConnCapabilities 1 0]
   \<and> queries (fst (c_example_lstypec (scripted 1 1 (sparse 0)) 0 0)) =
     [New 0, GetCapabilities 1, GetConnCapabilities 1 0,
      GetPdos 1 0 False 0 0 UcsiPdoType_Source
        UcsiPdoSourceCapabilitiesType_CurrentSupportedSourceCapabilities 0x0301,
      GetPdos 1 0 False 0 0 UcsiPdoType_Sink
        UcsiPdoSourceCapabilitiesType_CurrentSupportedSourceCapabilities 0x0301,
      GetCableProperties 1 0,
      GetAlternateModes 1 UcsiGetAlternateModesRecipient_Connector 0,
      GetAlternateModes 1 UcsiGetAlternateModesRecipient_SopPrime 0,
      GetPdMessage 1 0 PdMessageRecipient_SopPrime PdMessageResponseType_DiscoverIdentity,
      GetAlternateModes 1 UcsiGetAlternateModesRecipient_Sop 0,
      GetPdMessage 1 0 PdMessageRecipient_Sop PdMessageResponseType_DiscoverIdentity,
      GetPdos 1 0 True 0 0 UcsiPdoType_Source
        UcsiPdoSourceCapabilitiesType_CurrentSupportedSourceCapabilities 0x0301,
      GetPdos 1 0 True 0 0 UcsiPdoType_Sink
        UcsiPdoSourceCapabilitiesType_CurrentSupportedSourceCapabilities 0x0301]"
proof -
  have run: "c_example_lstypec (scripted 1 1 (sparse 0)) 0 0 = (sparse_events 0, Returned 0, 0)"
    by (rule run_sparse) simp
  show ?thesis
    unfolding run run_conn_capabilities_fails
    by (simp add: sparse_events_def scripted_def conn_capabilities_fails_def sparse_def)
qed




text \<open>
  C6. A variable-length query of a run records the status and the three values the library
  yielded for it. When \<open>libtypec_rs_get_pdos\<close> returns 0 and has populated the pointer, the
  next call is \<open>libtypec_rs_destroy_pdos\<close> with the pointer, the count and the size the
  query produced: the library's destroy function is applied to these three values in the
  state right after the query, and the rest of the run goes on from the state it yields.
  When \<open>libtypec_rs_get_alternate_modes\<close> returns 0, the same holds of
  \<open>libtypec_rs_destroy_alternate_modes\<close>. (A PDO query that returns 0 and leaves the pointer
  null fails the \<open>assert\<close> of the function, and nothing is destroyed.)
\<close>

theorem buffer_destroyed_with_its_three_values:
  assumes "c_example_lstypec L backend s0 = (es, out, s')"
    and "es = pre @ Call q inp 0 (Buffer p n sz) # post"
  shows "answers L (Call q inp 0 (Buffer p n sz)) (replay L pre s0) \<and>
         (is_get_pdos q \<and> p \<noteq> NULL \<longrightarrow>
            (\<exists>post'. post = DestroyPdos p n sz # post' \<and>
               s' = replay L post'
                      (libtypec_rs_destroy_pdos L p n sz
                         (replay L (pre @ [Call q inp 0 (Buffer p n sz)]) s0)))) \<and>
         (is_get_pdos q \<and> p = NULL \<longrightarrow> post = [] \<and> out = Aborted) \<and>
         (is_get_alternate_modes q \<longrightarrow>
            (\<exists>post'. post = DestroyAlternateModes p n sz # post' \<and>
               s' = replay L post'
                      (libtypec_rs_destroy_alternate_modes L p n sz
                         (replay L (pre @ [Call q inp 0 (Buffer p n sz)]) s0))))"
proof -
  note lib = c_example_lstypec_performs [OF assms(1)]
  have "answers L (Call q inp 0 (Buffer p n sz)) (replay L pre s0)"
    using lib assms(2) by (simp add: faithful_append)
  moreover have "s' = replay L post'
                   (libtypec_rs_destroy_pdos L p n sz
                      (replay L (pre @ [Call q inp 0 (Buffer p n sz)]) s0))"
    if "post = DestroyPdos p n sz # post'" for post'
    using lib assms(2) that by (simp add: replay_append)
  moreover have "s' = replay L post'
                   (libtypec_rs_destroy_alternate_modes L p n sz
                      (replay L (pre @ [Call q inp 0 (Buffer p n sz)]) s0))"
    if "post = DestroyAlternateModes p n sz # post'" for post'
    using lib assms(2) that by (simp add: replay_append)
  ultimately show ?thesis
    using released_run [OF assms] by (auto dest!: next_is_Cons)
qed

theorem buffer_destroyed_with_its_three_values_witness:
  "c_example_lstypec (scripted 1 1 all_ok) 0 0 = (all_ok_events, Returned 0, 7)
   \<and> all_ok_events =
       take 3 all_ok_events @
       Call (GetPdos 1 0 False 0 0 UcsiPdoType_Source
               UcsiPdoSourceCapabilitiesType_CurrentSupportedSourceCapabilities 0x0301)
         (Buffer 0 0 0) 0 (Buffer 2 2 8) # drop 4 all_ok_events
   \<and> is_get_pdos (GetPdos 1 0 False 0 0 UcsiPdoType_Source
         UcsiPdoSourceCapabilitiesType_CurrentSupportedSourceCapabilities 0x0301)
   \<and> (2 :: ptr) \<noteq> NULL
   \<and> (\<exists>post'. drop 4 all_ok_events = DestroyPdos 2 2 8 # post')"
proof -
  have split: "all_ok_events =
       take 3 all_ok_events @
       Call (GetPdos 1 0 False 0 0 UcsiPdoType_Source
               UcsiPdoSourceCapabilitiesType_CurrentSupportedSourceCapabilities 0x0301)
         (Buffer 0 0 0) 0 (Buffer 2 2 8) # drop 4 all_ok_events"
    by (simp add: all_ok_events_def)
  have "\<exists>post'. drop 4 all_ok_events = DestroyPdos 2 2 8 # post'"
    using buffer_destroyed_with_its_three_values [OF run_all_ok split]
    by (auto simp: NULL_def)
  then show ?thesis
    using run_all_ok split by (simp add: NULL_def)
qed

text \<open>
  C7 fails on the code. After a \<open>libtypec_rs_get_pd_message\<close> for SOP that returned 0, the
  message is never passed to \<open>libtypec_rs_destroy_pd_message\<close>: the branch of lines 140 and
  141 is empty, where the one for SOP' (lines 117 and 118) destroys the message. Every
  \<open>libtypec_rs_destroy_pd_message\<close> later in the run comes right after a later query for
  SOP' that returned 0, and destroys the message of that query, written over the one of SOP.
\<close>

theorem sop_pd_message_never_destroyed:
  assumes "c_example_lstypec L backend s0 = (es, out, s')"
    and "es = pre @ Call (GetPdMessage t i PdMessageRecipient_Sop ty) inp 0 (Message m) # post"
  shows "\<forall>mid m' rest. post = mid @ DestroyPdMessage m' # rest \<longrightarrow>
           (\<exists>mid' t' i' ty' inp'.
              mid = mid' @ [Call (GetPdMessage t' i' PdMessageRecipient_SopPrime ty') inp' 0
                              (Message m')])"
proof (intro allI impI)
  fix mid m' rest
  assume later: "post = mid @ DestroyPdMessage m' # rest"
  have "\<exists>mid' e. mid = mid' @ [e] \<and> releases (DestroyPdMessage m') e"
    using later_destroy_after_own_query [OF assms later] by simp
  then show "\<exists>mid' t' i' ty' inp'.
              mid = mid' @ [Call (GetPdMessage t' i' PdMessageRecipient_SopPrime ty') inp' 0
                              (Message m')]"
    using releases_DestroyPdMessageD by blast
qed

theorem sop_pd_message_never_destroyed_witness:
  "c_example_lstypec (scripted 1 1 all_ok) 0 0 = (all_ok_events, Returned 0, 7)
   \<and> all_ok_events =
       take 16 all_ok_events @
       Call (GetPdMessage 1 0 PdMessageRecipient_Sop PdMessageResponseType_DiscoverIdentity)
         Unobserved 0 (Message [0xFF008041]) #
       [Call (GetPdos 1 0 True 0 0 UcsiPdoType_Source
                UcsiPdoSourceCapabilitiesType_CurrentSupportedSourceCapabilities 0x0301)
          (Buffer 0 0 0) 0 (Buffer 7 2 8),
        DestroyPdos 7 2 8,
        Call (GetPdos 1 0 True 0 0 UcsiPdoType_Sink
                UcsiPdoSourceCapabilitiesType_CurrentSupportedSourceCapabilities 0x0301)
          (Buffer 0 0 0) 0 (Buffer 8 2 8),
        DestroyPdos 8 2 8,
        Destroy 1]"
proof -
  have split: "all_ok_events =
       take 16 all_ok_events @
       Call (GetPdMessage 1 0 PdMessageRecipient_Sop PdMessageResponseType_DiscoverIdentity)
         Unobserved 0 (Message [0xFF008041]) #
       [Call (GetPdos 1 0 True 0 0 UcsiPdoType_Source
                UcsiPdoSourceCapabilitiesType_CurrentSupportedSourceCapabilities 0x0301)
          (Buffer 0 0 0) 0 (Buffer 7 2 8),
        DestroyPdos 7 2 8,
        Call (GetPdos 1 0 True 0 0 UcsiPdoType_Sink
                UcsiPdoSourceCapabilitiesType_CurrentSupportedSourceCapabilities 0x0301)
          (Buffer 0 0 0) 0 (Buffer 8 2 8),
        DestroyPdos 8 2 8,
        Destroy 1]"
    by (simp add: all_ok_events_def)
  from sop_pd_message_never_destroyed [OF run_all_ok split] run_all_ok split
  show ?thesis by blast
qed

text \<open>
  C8. \<open>libtypec_rs_new\<close> yields a status and a handle. With a null handle the function
  returns the status at once: the call of \<open>libtypec_rs_new\<close> is the only event of the run,
  and the library is left in the state after that call. With any other handle the next
  event is the query of the capabilities with that handle.
\<close>

theorem null_handle_returns_status:
  assumes "c_example_lstypec L backend s0 = (es, out, s')"
    and "libtypec_rs_new L (backend_type L backend) s0 = ((ret, typec), s1)"
  shows "if typec = NULL
         then es = [Call (New (backend_type L backend)) Unobserved ret (Handle NULL)] \<and>
              out = Returned ret \<and> s' = s1
         else (\<exists>ret' caps s2 rest.
                 libtypec_rs_get_capabilities L typec s1 = ((ret', caps), s2) \<and>
                 es = Call (New (backend_type L backend)) Unobserved ret (Handle typec) #
                      Call (GetCapabilities typec) Unobserved ret' (Capability caps) # rest)"
  using assms unfolding c_example_lstypec_def Let_def
  by (auto split: prod.splits if_splits option.splits)

theorem null_handle_returns_status_witness:
  "c_example_lstypec (scripted NULL 1 all_ok) 0 0 =
     ([Call (New 0) Unobserved 0 (Handle NULL)], Returned 0, 0)
   \<and> libtypec_rs_new (scripted NULL 1 all_ok) (backend_type (scripted NULL 1 all_ok) 0) 0 =
       ((0, NULL), 0)
   \<and> c_example_lstypec (scripted 1 1 all_ok) 0 0 = (all_ok_events, Returned 0, 7)
   \<and> libtypec_rs_new (scripted 1 1 all_ok) (backend_type (scripted 1 1 all_ok) 0) 0 =
       ((0, 1), 0)
   \<and> (\<exists>ret' caps s2 rest.
         libtypec_rs_get_capabilities (scripted 1 1 all_ok) 1 0 = ((ret', caps), s2) \<and>
         all_ok_events = Call (New (backend_type (scripted 1 1 all_ok) 0)) Unobserved 0 (Handle 1) #
                         Call (GetCapabilities 1) Unobserved ret' (Capability caps) # rest)"
proof -
  have new0: "libtypec_rs_new (scripted NULL 1 all_ok) (backend_type (scripted NULL 1 all_ok) 0) 0 =
       ((0, NULL), 0)"
    by (simp add: scripted_def all_ok_def)
  have new1: "libtypec_rs_new (scripted 1 1 all_ok) (backend_type (scripted 1 1 all_ok) 0) 0 =
       ((0, 1), 0)"
    by (simp add: scripted_def all_ok_def)
  from null_handle_returns_status [OF run_no_session new0]
       null_handle_returns_status [OF run_all_ok new1]
       run_no_session run_all_ok new0 new1
  show ?thesis by (simp add: NULL_def)
qed

text \<open>
  C9. The backend kind passed to \<open>libtypec_rs_new\<close>, in the first event of every run, is
  \<open>OsBackends_Sysfs\<close> when the argument \<open>backend\<close> is 0, and the argument itself otherwise.
\<close>

theorem backend_zero_selects_sysfs:
  assumes "c_example_lstypec L backend s0 = (es, out, s')"
  shows "\<exists>ret typec s1 rest.
           libtypec_rs_new L (if backend = 0 then OsBackends_Sysfs L else backend) s0 =
             ((ret, typec), s1) \<and>
           es = Call (New (if backend = 0 then OsBackends_Sysfs L else backend))
                  Unobserved ret (Handle typec) # rest"
  using assms unfolding c_example_lstypec_def backend_type_def Let_def
  by (auto split: prod.splits if_splits option.splits)

theorem backend_zero_selects_sysfs_witness:
  "c_example_lstypec ((scripted NULL 1 all_ok)\<lparr>OsBackends_Sysfs := 7\<rparr>) 0 0 =
     ([Call (New 7) Unobserved 0 (Handle NULL)], Returned 0, 0)
   \<and> c_example_lstypec ((scripted NULL 1 all_ok)\<lparr>OsBackends_Sysfs := 7\<rparr>) 3 0 =
     ([Call (New 3) Unobserved 0 (Handle NULL)], Returned 0, 0)
   \<and> (\<exists>ret typec s1 rest.
         libtypec_rs_new ((scripted NULL 1 all_ok)\<lparr>OsBackends_Sysfs := 7\<rparr>) 7 0 =
           ((ret, typec), s1) \<and>
         [Call (New 7) Unobserved 0 (Handle NULL)] = Call (New 7) Unobserved ret (Handle typec) # rest)
   \<and> (\<exists>ret typec s1 rest.
         libtypec_rs_new ((scripted NULL 1 all_ok)\<lparr>OsBackends_Sysfs := 7\<rparr>) 3 0 =
           ((ret, typec), s1) \<and>
         [Call (New 3) Unobserved 0 (Handle NULL)] = Call (New 3) Unobserved ret (Handle typec) # rest)"
proof -
  have run0: "c_example_lstypec ((scripted NULL 1 all_ok)\<lparr>OsBackends_Sysfs := 7\<rparr>) 0 0 =
     ([Call (New 7) Unobserved 0 (Handle NULL)], Returned 0, 0)"
    by (simp add: run_defs all_ok_def)
  have run3: "c_example_lstypec ((scripted NULL 1 all_ok)\<lparr>OsBackends_Sysfs := 7\<rparr>) 3 0 =
     ([Call (New 3) Unobserved 0 (Handle NULL)], Returned 0, 0)"
    by (simp add: run_defs all_ok_def)
  from backend_zero_selects_sysfs [OF run0] backend_zero_selects_sysfs [OF run3] run0 run3
  show ?thesis by simp
qed

text \<open>
  C10. \<open>libtypec_rs_new\<close> reports a construction failure, a null handle, with a status
  other than 0. Then the function calls \<open>libtypec_rs_destroy\<close> if and only if it returns 0,
  and only on the session handle: every early return (construction failure, failed query
  of the capabilities, fatal status in the loop) leaves without a destroy call on the
  session. When the function returns 0 the destroy call is the last event of the run, and
  the library ends in the state its \<open>libtypec_rs_destroy\<close> yields for the session handle.
\<close>

theorem session_destroyed_iff_returns_zero:
  assumes "c_example_lstypec L backend s0 = (es, out, s')"
    and "libtypec_rs_new L (backend_type L backend) s0 = ((ret, typec), s1)"
    and "typec = NULL \<longrightarrow> ret \<noteq> 0"
  shows "((\<exists>t. Destroy t \<in> set es) \<longleftrightarrow> out = Returned 0) \<and>
         (\<forall>t. Destroy t \<in> set es \<longrightarrow> t = typec) \<and>
         (out = Returned 0 \<longrightarrow>
            (\<exists>es0. es = es0 @ [Destroy typec] \<and> (\<forall>t. Destroy t \<notin> set es0) \<and>
                   s' = libtypec_rs_destroy L typec (replay L es0 s0)))"
  using assms(1)
proof (cases rule: c_example_lstypec_cases)
  case (no_session ret0 s1')
  then show ?thesis using assms(2,3) by auto
next
  case (no_capabilities ret0 typec' s1' ret' caps s2)
  then show ?thesis using assms(2) by auto
next
  case (stopped ret0 typec' s1' caps s2 les v)
  from connector_loop_session_kept [OF stopped(4)] stopped(1,5) assms(2)
  show ?thesis by auto
next
  case (completed ret0 typec' s1' caps s2 les v)
  let ?es0 = "Call (New (backend_type L backend)) Unobserved ret0 (Handle typec') #
              Call (GetCapabilities typec') Unobserved 0 (Capability caps) # les"
  have same: "typec' = typec"
    using completed(1) assms(2) by simp
  have es: "es = ?es0 @ [Destroy typec]"
    using completed(5) same by simp
  have none: "\<forall>t. Destroy t \<notin> set ?es0"
    using connector_loop_session_kept(1) [OF completed(4)] by simp
  have "s' = replay L es s0"
    using c_example_lstypec_performs [OF assms(1)] by simp
  then have "s' = libtypec_rs_destroy L typec (replay L ?es0 s0)"
    unfolding es by (simp add: replay_append)
  with es none have "\<exists>es0. es = es0 @ [Destroy typec] \<and> (\<forall>t. Destroy t \<notin> set es0) \<and>
                   s' = libtypec_rs_destroy L typec (replay L es0 s0)"
    by blast
  moreover have "(\<exists>t. Destroy t \<in> set es) \<longleftrightarrow> out = Returned 0"
    using es completed(6) by auto
  moreover have "\<forall>t. Destroy t \<in> set es \<longrightarrow> t = typec"
    using es none by auto
  ultimately show ?thesis
    by blast
qed

theorem session_destroyed_iff_returns_zero_witness:
  "c_example_lstypec (scripted 1 1 all_ok) 0 0 = (all_ok_events, Returned 0, 7)
   \<and> libtypec_rs_new (scripted 1 1 all_ok) (backend_type (scripted 1 1 all_ok) 0) 0 =
       ((0, 1), 0)
   \<and> (1 :: ptr) \<noteq> NULL
   \<and> Destroy 1 \<in> set all_ok_events"
proof -
  have new1: "libtypec_rs_new (scripted 1 1 all_ok) (backend_type (scripted 1 1 all_ok) 0) 0 =
       ((0, 1), 0)"
    by (simp add: scripted_def all_ok_def)
  have ok: "(1 :: ptr) = NULL \<longrightarrow> (0 :: c_int) \<noteq> 0"
    by (simp add: NULL_def)
  note inst = session_destroyed_iff_returns_zero [OF run_all_ok new1 ok]
  then have "\<exists>t. Destroy t \<in> set all_ok_events"
    by simp
  then have "Destroy 1 \<in> set all_ok_events"
    using inst by auto
  then show ?thesis
    using run_all_ok new1 by (simp add: NULL_def)
qed

end
